theory Spec2Isabelle
  imports Main "HOL-Library.Word" "HOL-Library.Monad_Syntax"
begin

section \<open>Characters and C strings\<close>

text \<open>
  A C \<open>char\<close> is a byte, modelled by \<^typ>\<open>char\<close>. A \<open>const char*\<close> argument is modelled by
  the list of bytes it points at; the string it denotes ends at the first NUL byte, or at
  the end of the list (where the terminator of the C string sits).
\<close>

abbreviation NUL :: char where "NUL \<equiv> CHR 0x00"
abbreviation newline :: char where "newline \<equiv> CHR 0x0A"
abbreviation dquote :: char where "dquote \<equiv> CHR 0x22"
abbreviation backslash :: char where "backslash \<equiv> CHR 0x5C"

definition c_str :: "string \<Rightarrow> string" where
  "c_str s = takeWhile (\<lambda>c. c \<noteq> NUL) s"

definition strlen :: "string \<Rightarrow> nat" where
  "strlen s = length (c_str s)"

text \<open>\<open>strcmp(a, b) == 0\<close>\<close>

definition strcmp_eq :: "string \<Rightarrow> string \<Rightarrow> bool" where
  "strcmp_eq a b = (c_str a = c_str b)"

section \<open>Formatted output\<close>

text \<open>
  The variadic arguments of \<open>Append(format, ...)\<close>: integers (for the conversions
  \<open>%d\<close>, \<open>%i\<close>, \<open>%x\<close>, \<open>%lc\<close>) and C strings (for \<open>%s\<close>).
\<close>

datatype printf_arg = ArgInt int | ArgStr string

fun dec_digits :: "nat \<Rightarrow> string" where
  "dec_digits n =
     (if n < 10 then [''0123456789'' ! n]
      else dec_digits (n div 10) @ [''0123456789'' ! (n mod 10)])"

fun hex_digits :: "nat \<Rightarrow> string" where
  "hex_digits n =
     (if n < 16 then [''0123456789abcdef'' ! n]
      else hex_digits (n div 16) @ [''0123456789abcdef'' ! (n mod 16)])"

declare dec_digits.simps [simp del] hex_digits.simps [simp del]

text \<open>\<open>%d\<close> and \<open>%i\<close>: signed decimal.\<close>

definition render_d :: "int \<Rightarrow> string" where
  "render_d n = (if n < 0 then CHR ''-'' # dec_digits (nat (- n)) else dec_digits (nat n))"

text \<open>\<open>%x\<close>: the argument read as a 32-bit \<open>unsigned int\<close>, in lower-case hexadecimal.\<close>

definition render_x :: "int \<Rightarrow> string" where
  "render_x n = hex_digits (nat (n mod 2 ^ 32))"

definition pad_zero :: "nat \<Rightarrow> string \<Rightarrow> string" where
  "pad_zero w s = replicate (w - length s) (CHR ''0'') @ s"

text \<open>
  One conversion specification: \<open>d\<close> holds the characters between \<open>%\<close> and the
  conversion character \<open>c\<close> (flags, width, length modifier). The conversions are the ones the
  message builder uses: \<open>%d\<close>, \<open>%i\<close>, \<open>%s\<close>, \<open>%x\<close>, \<open>%02x\<close>, \<open>%04x\<close> and \<open>%lc\<close>
  (only ever given a printable ASCII code, which is written as that one byte).
\<close>

definition convert :: "string \<Rightarrow> char \<Rightarrow> printf_arg \<Rightarrow> string" where
  "convert d c a =
     (case a of
        ArgStr s \<Rightarrow> (if c = CHR ''s'' then c_str s else [])
      | ArgInt n \<Rightarrow>
          if c = CHR ''d'' \<or> c = CHR ''i'' then render_d n
          else if c = CHR ''x'' then
            pad_zero (if d = ''04'' then 4 else if d = ''02'' then 2 else 0) (render_x n)
          else if c = CHR ''c'' then [char_of n]
          else [])"

text \<open>
  The formatter proper, reading the format one character at a time. The first argument is
  \<open>None\<close> outside a conversion specification and \<open>Some d\<close> inside one, \<open>d\<close> being the
  characters read since the \<open>%\<close>.
\<close>

fun vformat :: "string option \<Rightarrow> string \<Rightarrow> printf_arg list \<Rightarrow> string" where
  "vformat st [] as = []"
| "vformat None (c # fs) as =
     (if c = CHR ''%'' then vformat (Some []) fs as else c # vformat None fs as)"
| "vformat (Some d) (c # fs) as =
     (if c = CHR ''%'' \<and> d = [] then c # vformat None fs as
      else if c \<in> set ''dixsc'' then
        (case as of
           [] \<Rightarrow> vformat None fs []
         | a # as' \<Rightarrow> convert d c a @ vformat None fs as')
      else vformat (Some (d @ [c])) fs as)"

text \<open>
  Modelled from the spec: \<open>VSNPrintF\<close> (declared in \<open>src/utils.h\<close>, which is not among the
  source files) renders into a buffer of \<open>sz\<close> bytes and returns the number of
  characters produced, or \<open>-1\<close> when the output was truncated. As \<open>vsnprintf\<close> does, it
  stores a terminating NUL after the characters, so an output of \<open>n\<close> characters fits only
  when \<open>n < sz\<close>; a truncated output leaves the first \<open>sz - 1\<close> characters and a NUL.
  The result is the bytes stored at the start of the buffer, and the return value.
\<close>

definition VSNPrintF :: "nat \<Rightarrow> string \<Rightarrow> printf_arg list \<Rightarrow> string \<times> int" where
  "VSNPrintF sz format args =
     (let s = vformat None format args in
      if length s < sz then (s @ [NUL], int (length s))
      else (if 0 < sz then take (sz - 1) s @ [NUL] else [], - 1))"

section \<open>The log and its environment\<close>

datatype FILE = Stdout | Handle nat

text \<open>
  The fields of \<open>class Log\<close> (\<open>is_stopped_\<close>, \<open>output_handle_\<close>, \<open>message_buffer_\<close>), followed
  by the part of the world the log acts on:
  \<^item> \<open>requests\<close>: the byte sequences passed to \<open>WriteToFile\<close>, one entry per call;
  \<^item> \<open>device\<close>: the bytes the destination has accepted;
  \<^item> \<open>room\<close>: how many more bytes the destination accepts before a write comes back short;
  \<^item> \<open>closed\<close>: the handles passed to \<open>fclose\<close>;
  \<^item> \<open>failures\<close>: the number of \<open>logger_->LogFailure()\<close> notifications.
  A null pointer is \<open>None\<close>.
\<close>

record Log =
  is_stopped :: bool
  output_handle :: "FILE option"
  message_buffer :: "string option"
  requests :: "string list"
  device :: string
  room :: nat
  closed :: "FILE list"
  failures :: nat

text \<open>
  Modelled from the spec: \<open>kMessageBufferSize\<close> is declared in \<open>src/log-utils.h\<close>, which is
  not among the source files; the specification gives the capacity as 2 KiB.
\<close>

definition kMessageBufferSize :: int where
  "kMessageBufferSize = 2048"

definition kLogToTemporaryFile :: string where
  "kLogToTemporaryFile = ''&''"

definition kLogToConsole :: string where
  "kLogToConsole = ''-''"

text \<open>\<open>Log::Log\<close>; the argument is the room of the destination to come.\<close>

definition Log_ctor :: "nat \<Rightarrow> Log" where
  "Log_ctor r =
     \<lparr>is_stopped = False, output_handle = None, message_buffer = None,
      requests = [], device = [], room = r, closed = [], failures = 0\<rparr>"

text \<open>
  Modelled from the spec: \<open>IsEnabled\<close> is defined in \<open>src/log-utils.h\<close>, which is not among
  the source files. The channel is enabled iff a destination is open and the log has not
  been stopped.
\<close>

definition IsEnabled :: "Log \<Rightarrow> bool" where
  "IsEnabled L = (\<not> is_stopped L \<and> output_handle L \<noteq> None)"

text \<open>
  Modelled from the spec: \<open>stop\<close> is defined in \<open>src/log-utils.h\<close>, which is not among the
  source files. It disables the channel for good, by setting \<open>is_stopped_\<close>.
\<close>

definition stop :: "Log \<Rightarrow> Log" where
  "stop L = L\<lparr>is_stopped := True\<rparr>"

text \<open>
  Modelled from the spec: \<open>LogFailure\<close> is a member of the logger, which is not among the
  source files. It is a notification without payload; the log counts the notifications.
\<close>

definition LogFailure :: "Log \<Rightarrow> Log" where
  "LogFailure L = L\<lparr>failures := Suc (failures L)\<rparr>"

text \<open>
  Modelled from the spec: \<open>WriteToFile\<close> is defined in \<open>src/log-utils.h\<close>, which is not among
  the source files. A write on a disabled channel does nothing and returns 0; a write on
  an enabled one hands the bytes to the destination and returns the number of bytes the
  destination accepted, without retrying a short write.
\<close>

definition WriteToFile :: "string \<Rightarrow> Log \<Rightarrow> Log \<times> int" where
  "WriteToFile msg L =
     (let L1 = L\<lparr>requests := requests L @ [msg]\<rparr> in
      if IsEnabled L then
        let n = min (length msg) (room L)
        in (L1\<lparr>device := device L @ take n msg, room := room L - n\<rparr>, int n)
      else (L1, 0))"

subsection \<open>Opening and closing\<close>

text \<open>
  What the platform answers: the handle of a new temporary file, the handle of a named file
  (null when it cannot be opened), and the bytes found in freshly allocated storage.
\<close>

record Platform =
  OS_OpenTemporaryFile :: "FILE option"
  OS_FOpen :: "string \<Rightarrow> FILE option"
  heap_garbage :: string

text \<open>\<open>NewArray<char>(n)\<close>: \<open>n\<close> bytes of storage with arbitrary content.\<close>

definition NewArray :: "Platform \<Rightarrow> int \<Rightarrow> string" where
  "NewArray os n = take (nat n) (heap_garbage os @ replicate (nat n) NUL)"

definition OpenStdout :: "Log \<Rightarrow> Log" where
  "OpenStdout L = L\<lparr>output_handle := Some Stdout\<rparr>"

definition OpenTemporaryFile :: "Platform \<Rightarrow> Log \<Rightarrow> Log" where
  "OpenTemporaryFile os L = L\<lparr>output_handle := OS_OpenTemporaryFile os\<rparr>"

definition OpenFile :: "Platform \<Rightarrow> string \<Rightarrow> Log \<Rightarrow> Log" where
  "OpenFile os name L = L\<lparr>output_handle := OS_FOpen os (c_str name)\<rparr>"

text \<open>\<open>Log::Close\<close>; the first argument is \<open>FLAG_logfile\<close>.\<close>

definition Close :: "string \<Rightarrow> Log \<Rightarrow> FILE option \<times> Log" where
  "Close FLAG_logfile L =
     (let (result, L1) =
        (case output_handle L of
           None \<Rightarrow> (None, L)
         | Some h \<Rightarrow>
             if \<not> strcmp_eq FLAG_logfile kLogToTemporaryFile
             then (None, L\<lparr>closed := closed L @ [h]\<rparr>)
             else (Some h, L))
      in (result, L1\<lparr>output_handle := None, message_buffer := None, is_stopped := False\<rparr>))"

section \<open>The message builder\<close>

text \<open>
  \<open>log\<close> is the log the builder points at (\<open>log_\<close>); the builder holds its mutex, so nothing
  else touches it during the builder's scope. \<open>pos\<close> is the cursor \<open>pos_\<close>, a C \<open>int\<close>.
  Every operation returns \<open>None\<close> where the C++ code has undefined behaviour: a null
  buffer, an access outside the buffer's storage, or signed overflow.
\<close>

record MessageBuilder =
  log :: Log
  pos :: int

definition MessageBuilder_ctor :: "Log \<Rightarrow> MessageBuilder" where
  "MessageBuilder_ctor L = \<lparr>log = L, pos = 0\<rparr>"

text \<open>Storing \<open>bytes\<close> at offset \<open>i\<close> of the message buffer, and reading \<open>n\<close> bytes from its start.\<close>

definition store :: "int \<Rightarrow> string \<Rightarrow> MessageBuilder \<Rightarrow> MessageBuilder option" where
  "store i bytes b =
     (case message_buffer (log b) of
        None \<Rightarrow> None
      | Some buf \<Rightarrow>
          if 0 \<le> i \<and> i + int (length bytes) \<le> int (length buf)
          then Some (b\<lparr>log := (log b)\<lparr>message_buffer :=
                  Some (take (nat i) buf @ bytes @ drop (nat i + length bytes) buf)\<rparr>\<rparr>)
          else None)"

definition fetch :: "int \<Rightarrow> MessageBuilder \<Rightarrow> string option" where
  "fetch n b =
     (case message_buffer (log b) of
        None \<Rightarrow> None
      | Some buf \<Rightarrow> if 0 \<le> n \<and> n \<le> int (length buf) then Some (take (nat n) buf) else None)"

text \<open>\<open>AppendVA\<close>: the vector \<open>buf\<close> is the tail \<open>[pos_, kMessageBufferSize)\<close> of the buffer.\<close>

definition AppendVA :: "string \<Rightarrow> printf_arg list \<Rightarrow> MessageBuilder \<Rightarrow> MessageBuilder option" where
  "AppendVA format args b =
     (if pos b < 0 \<or> kMessageBufferSize < pos b then None
      else
        let (bytes, result) = VSNPrintF (nat (kMessageBufferSize - pos b)) format args
        in do {
          b1 \<leftarrow> store (pos b) bytes b;
          Some (if 0 \<le> result then b1\<lparr>pos := pos b + result\<rparr>
                else b1\<lparr>pos := kMessageBufferSize\<rparr>)
        })"

text \<open>\<open>Append(const char* format, ...)\<close>\<close>

definition Append :: "string \<Rightarrow> printf_arg list \<Rightarrow> MessageBuilder \<Rightarrow> MessageBuilder option" where
  "Append format args b = AppendVA format args b"

text \<open>\<open>Append(const char c)\<close>\<close>

definition AppendChar :: "char \<Rightarrow> MessageBuilder \<Rightarrow> MessageBuilder option" where
  "AppendChar c b =
     (if pos b < kMessageBufferSize then do {
        b1 \<leftarrow> store (pos b) [c] b;
        Some (b1\<lparr>pos := pos b + 1\<rparr>)
      }
      else Some b)"

text \<open>\<open>AppendDoubleQuotedString\<close>: the loop runs to the terminator of the C string.\<close>

fun quoted_loop :: "string \<Rightarrow> MessageBuilder \<Rightarrow> MessageBuilder option" where
  "quoted_loop [] b = Some b"
| "quoted_loop (p # ps) b =
     (if p = NUL then Some b
      else do {
        b1 \<leftarrow> (if p = dquote then AppendChar backslash b else Some b);
        b2 \<leftarrow> AppendChar p b1;
        quoted_loop ps b2
      })"

definition AppendDoubleQuotedString :: "string \<Rightarrow> MessageBuilder \<Rightarrow> MessageBuilder option" where
  "AppendDoubleQuotedString string b = do {
     b1 \<leftarrow> AppendChar dquote b;
     b2 \<leftarrow> quoted_loop string b1;
     AppendChar dquote b2
   }"

text \<open>
  Modelled from the spec: \<open>StrNCpy\<close> is declared in \<open>src/utils.h\<close>, which is not among the
  source files. It copies \<open>n\<close> bytes as \<open>strncpy\<close> does: the characters of \<open>src\<close> up to its
  terminator, and then NUL bytes.
\<close>

definition StrNCpy :: "string \<Rightarrow> nat \<Rightarrow> string" where
  "StrNCpy src n = take n (c_str src @ replicate n NUL)"

definition INT_MAX :: int where
  "INT_MAX = 2 ^ 31 - 1"

text \<open>
  \<open>AppendStringPart\<close>: \<open>pos_ + len\<close> is a signed addition, and a negative \<open>len\<close> reaching
  \<open>StrNCpy\<close> becomes a huge \<open>size_t\<close>.
\<close>

definition AppendStringPart :: "string \<Rightarrow> int \<Rightarrow> MessageBuilder \<Rightarrow> MessageBuilder option" where
  "AppendStringPart str len b =
     (if INT_MAX < pos b + len then None
      else
        let len1 = (if kMessageBufferSize < pos b + len then kMessageBufferSize - pos b else len)
        in if kMessageBufferSize < pos b + len \<and> len1 = 0 then Some b
           else if len1 < 0 then None
           else do {
             b1 \<leftarrow> store (pos b) (StrNCpy str (nat len1)) b;
             Some (b1\<lparr>pos := pos b + len1\<rparr>)
           })"

text \<open>\<open>WriteToLogFile\<close>; the two \<open>DCHECK\<close>s are compiled out of release builds.\<close>

definition WriteToLogFile :: "MessageBuilder \<Rightarrow> MessageBuilder option" where
  "WriteToLogFile b = do {
     let p = (if pos b = kMessageBufferSize then pos b - 1 else pos b);
     b1 \<leftarrow> store p [newline] b;
     let b2 = b1\<lparr>pos := p + 1\<rparr>;
     msg \<leftarrow> fetch (pos b2) b2;
     let (L, written) = WriteToFile msg (log b2);
     Some (if written \<noteq> pos b2 then b2\<lparr>log := LogFailure (stop L)\<rparr> else b2\<lparr>log := L\<rparr>)
   }"

section \<open>Heap strings\<close>

text \<open>
  What the builder reads of a heap \<open>String\<close>: its UTF-16 code units (\<open>Get(i)\<close> returns a
  16-bit unit, \<open>length()\<close> their number) and three facts about its representation.
  A \<open>String*\<close> argument is a \<open>String option\<close>, \<open>None\<close> being the null pointer.
\<close>

record String =
  chars :: "16 word list"
  IsOneByteRepresentation :: bool
  IsExternal :: bool
  IsInternalized :: bool

definition str_length :: "String \<Rightarrow> int" where
  "str_length s = int (length (chars s))"

text \<open>The body of the loop of \<open>AppendDetailed\<close>, for the code unit \<open>ch\<close>.\<close>

definition detailed_char :: "16 word \<Rightarrow> MessageBuilder \<Rightarrow> MessageBuilder option" where
  "detailed_char ch b =
     (let c = uint ch in
      if c > 0xff then Append (backslash # ''u%04x'') [ArgInt c] b
      else if c < 32 \<or> c > 126 then Append (backslash # ''x%02x'') [ArgInt c] b
      else if c = 0x2C then Append [backslash, CHR '',''] [] b
      else if c = 0x5C then Append [backslash, backslash] [] b
      else if c = 0x22 then Append [dquote, dquote] [] b
      else Append ''%lc'' [ArgInt c] b)"

fun detailed_loop :: "16 word list \<Rightarrow> MessageBuilder \<Rightarrow> MessageBuilder option" where
  "detailed_loop [] b = Some b"
| "detailed_loop (ch # rest) b = do {
     b1 \<leftarrow> detailed_char ch b;
     detailed_loop rest b1
   }"

text \<open>The part of \<open>AppendDetailed\<close> under \<open>if (show_impl_info)\<close>.\<close>

definition impl_info :: "String \<Rightarrow> MessageBuilder \<Rightarrow> MessageBuilder option" where
  "impl_info s b = do {
     b1 \<leftarrow> AppendChar (if IsOneByteRepresentation s then CHR ''a'' else CHR ''2'') b;
     b2 \<leftarrow> (if IsExternal s then AppendChar (CHR ''e'') b1 else Some b1);
     b3 \<leftarrow> (if IsInternalized s then AppendChar (CHR ''#'') b2 else Some b2);
     Append '':%i:'' [ArgInt (str_length s)] b3
   }"

definition AppendDetailed :: "String option \<Rightarrow> bool \<Rightarrow> MessageBuilder \<Rightarrow> MessageBuilder option" where
  "AppendDetailed str show_impl_info b =
     (case str of
        None \<Rightarrow> Some b
      | Some s \<Rightarrow>
          let len = str_length s;
              len = (if len > 0x1000 then 0x1000 else len)
          in do {
            b1 \<leftarrow> (if show_impl_info then impl_info s b else Some b);
            detailed_loop (take (nat len) (chars s)) b1
          })"

subsection \<open>The unbuffered path\<close>

definition AppendUnbufferedChar :: "char \<Rightarrow> MessageBuilder \<Rightarrow> MessageBuilder" where
  "AppendUnbufferedChar c b = b\<lparr>log := fst (WriteToFile [c] (log b))\<rparr>"

definition AppendUnbufferedCString :: "string \<Rightarrow> MessageBuilder \<Rightarrow> MessageBuilder" where
  "AppendUnbufferedCString str b = b\<lparr>log := fst (WriteToFile (c_str str) (log b))\<rparr>"

text \<open>
  \<open>SNPrintF(buffer, format, c)\<close> into the 16-byte scratch vector, then
  \<open>WriteToFile(buffer.start(), length)\<close>; a negative \<open>length\<close> has no defined meaning there.
\<close>

definition unbuffered_escape :: "string \<Rightarrow> int \<Rightarrow> MessageBuilder \<Rightarrow> MessageBuilder option" where
  "unbuffered_escape format c b =
     (let (bytes, n) = VSNPrintF 16 format [ArgInt c]
      in if n < 0 then None
         else Some (b\<lparr>log := fst (WriteToFile (take (nat n) bytes) (log b))\<rparr>))"

definition unbuffered_char :: "16 word \<Rightarrow> MessageBuilder \<Rightarrow> MessageBuilder option" where
  "unbuffered_char ch b =
     (let c = uint ch in
      if c \<ge> 32 \<and> c \<le> 126 then
        (if c = 0x22 then Some (AppendUnbufferedCString [dquote, dquote] b)
         else if c = 0x5C then Some (AppendUnbufferedCString [backslash, backslash] b)
         else Some (AppendUnbufferedChar (char_of c) b))
      else if c > 0xff then unbuffered_escape (backslash # ''u%04x'') c b
      else unbuffered_escape (backslash # ''x%02x'') c b)"

fun unbuffered_loop :: "16 word list \<Rightarrow> MessageBuilder \<Rightarrow> MessageBuilder option" where
  "unbuffered_loop [] b = Some b"
| "unbuffered_loop (ch # rest) b = do {
     b1 \<leftarrow> unbuffered_char ch b;
     unbuffered_loop rest b1
   }"

definition AppendUnbufferedHeapString :: "String option \<Rightarrow> MessageBuilder \<Rightarrow> MessageBuilder option" where
  "AppendUnbufferedHeapString str b =
     (case str of
        None \<Rightarrow> Some b
      | Some s \<Rightarrow> unbuffered_loop (take (nat (str_length s)) (chars s)) b)"

section \<open>Start-up\<close>

text \<open>The flags \<open>Log::Initialize\<close> reads and writes, and what it reads of \<open>Version\<close>.\<close>

record Flags =
  FLAG_log_all :: bool
  FLAG_log_api :: bool
  FLAG_log_code :: bool
  FLAG_log_gc :: bool
  FLAG_log_suspect :: bool
  FLAG_log_handles :: bool
  FLAG_log_internal_timer_events :: bool
  FLAG_prof :: bool

record Version =
  GetMajor :: int
  GetMinor :: int
  GetBuild :: int
  GetPatch :: int
  GetEmbedder :: string
  IsCandidate :: bool

text \<open>A C++ \<open>bool\<close> passed through the variadic arguments is promoted to \<open>int\<close>.\<close>

definition bool_int :: "bool \<Rightarrow> int" where
  "bool_int x = (if x then 1 else 0)"

text \<open>The first part of \<open>Log::Initialize\<close>: \<open>--log-all\<close> and \<open>--prof\<close>.\<close>

definition resolve_flags :: "Flags \<Rightarrow> Flags" where
  "resolve_flags F =
     (let F1 = (if FLAG_log_all F
                then F\<lparr>FLAG_log_api := True, FLAG_log_code := True, FLAG_log_gc := True,
                       FLAG_log_suspect := True, FLAG_log_handles := True,
                       FLAG_log_internal_timer_events := True\<rparr>
                else F)
      in if FLAG_prof F1 then F1\<lparr>FLAG_log_code := True\<rparr> else F1)"

text \<open>The choice of the destination in \<open>Log::Initialize\<close>.\<close>

definition open_log :: "Platform \<Rightarrow> string \<Rightarrow> Log \<Rightarrow> Log" where
  "open_log os log_file_name L =
     (if strcmp_eq log_file_name kLogToConsole then OpenStdout L
      else if strcmp_eq log_file_name kLogToTemporaryFile then OpenTemporaryFile os L
      else OpenFile os log_file_name L)"

text \<open>The version record, built and flushed once the log is open.\<close>

definition emit_version :: "Version \<Rightarrow> Log \<Rightarrow> Log option" where
  "emit_version v L = do {
     let msg = MessageBuilder_ctor L;
     msg1 \<leftarrow>
       (if strlen (GetEmbedder v) = 0
        then Append ''v8-version,%d,%d,%d,%d,%d''
               [ArgInt (GetMajor v), ArgInt (GetMinor v), ArgInt (GetBuild v),
                ArgInt (GetPatch v), ArgInt (bool_int (IsCandidate v))] msg
        else Append ''v8-version,%d,%d,%d,%d,%s,%d''
               [ArgInt (GetMajor v), ArgInt (GetMinor v), ArgInt (GetBuild v),
                ArgInt (GetPatch v), ArgStr (GetEmbedder v),
                ArgInt (bool_int (IsCandidate v))] msg);
     msg2 \<leftarrow> WriteToLogFile msg1;
     Some (log msg2)
   }"

text \<open>
  \<open>Log::Initialize\<close>. \<open>InitLogAtStart\<close> is a static function of \<open>src/log-utils.h\<close> that reads
  the flags; it is taken as a parameter. The function works on the flags and on the log,
  and returns both.
\<close>

definition Initialize ::
  "Platform \<Rightarrow> (Flags \<Rightarrow> bool) \<Rightarrow> Version \<Rightarrow> string \<Rightarrow> Flags \<Rightarrow> Log \<Rightarrow> (Flags \<times> Log) option"
where
  "Initialize os InitLogAtStart v log_file_name F L =
     (let L1 = L\<lparr>message_buffer := Some (NewArray os kMessageBufferSize)\<rparr>;
          F1 = resolve_flags F
      in if InitLogAtStart F1 then
           let L2 = open_log os log_file_name L1
           in if output_handle L2 \<noteq> None
              then do { L3 \<leftarrow> emit_version v L2; Some (F1, L3) }
              else Some (F1, L2)
         else Some (F1, L1))"

section \<open>Specification-level notions\<close>

text \<open>
  The storage of the message buffer (empty when there is none), and the well-formed builders:
  the buffer is allocated with \<open>kMessageBufferSize\<close> bytes and the cursor lies within it.
  \<open>content\<close> is the meaningful region \<open>[0, pos_)\<close>.
\<close>

definition buf_of :: "MessageBuilder \<Rightarrow> string" where
  "buf_of b = (case message_buffer (log b) of None \<Rightarrow> [] | Some buf \<Rightarrow> buf)"

definition valid :: "MessageBuilder \<Rightarrow> bool" where
  "valid b =
     ((case message_buffer (log b) of
         None \<Rightarrow> False
       | Some buf \<Rightarrow> int (length buf) = kMessageBufferSize)
      \<and> 0 \<le> pos b \<and> pos b \<le> kMessageBufferSize)"

definition content :: "MessageBuilder \<Rightarrow> string" where
  "content b = take (nat (pos b)) (buf_of b)"

text \<open>
  \<open>holds b req\<close>: the builder \<open>b\<close> is what formatted appends leave behind when the bytes
  \<open>req\<close> were asked for from the start of its scope. Either they all fit below the
  capacity and are the content, or the cursor is pinned at the capacity and the buffer
  starts with the first \<open>kMessageBufferSize - 1\<close> of them.
  \<open>exact b req\<close> is the sharper relation that byte-wise appends keep: the content is \<open>req\<close>
  cut at the capacity.
  \<open>same_channel b b'\<close>: the two builders differ at most in the buffer and the cursor.
\<close>

definition holds :: "MessageBuilder \<Rightarrow> string \<Rightarrow> bool" where
  "holds b req =
     (valid b \<and>
      (if int (length req) < kMessageBufferSize
       then pos b = int (length req) \<and> content b = req
       else pos b = kMessageBufferSize \<and>
            take (nat kMessageBufferSize - 1) (buf_of b) = take (nat kMessageBufferSize - 1) req))"

definition same_channel :: "MessageBuilder \<Rightarrow> MessageBuilder \<Rightarrow> bool" where
  "same_channel b b' = (log b' = (log b)\<lparr>message_buffer := message_buffer (log b')\<rparr>)"

definition exact :: "MessageBuilder \<Rightarrow> string \<Rightarrow> bool" where
  "exact b req =
     (valid b \<and> pos b = min kMessageBufferSize (int (length req))
      \<and> content b = take (nat kMessageBufferSize) req)"

text \<open>
  The quoted-string encoding in the words of the specification: every double quote gets a
  backslash in front; decoding replaces each backslash-quote pair by a quote, after the
  wrapping quotes are removed.
\<close>

fun quote_escape :: "string \<Rightarrow> string" where
  "quote_escape [] = []"
| "quote_escape (c # cs) = (if c = dquote then [backslash, dquote] else [c]) @ quote_escape cs"

fun quote_unescape :: "string \<Rightarrow> string" where
  "quote_unescape (a # c # cs) =
     (if a = backslash \<and> c = dquote then dquote # quote_unescape cs
      else a # quote_unescape (c # cs))"
| "quote_unescape cs = cs"

definition strip_quotes :: "string \<Rightarrow> string" where
  "strip_quotes s = butlast (tl s)"

text \<open>
  The detailed encoding of one code unit in the words of the specification: \<open>\u\<close> and four
  hexadecimal digits above \<open>0xFF\<close>, \<open>\x\<close> and two digits below \<open>0x20\<close> or above \<open>0x7E\<close>,
  an escaped comma, an escaped backslash, a doubled double quote, and the character itself
  otherwise.
\<close>

definition detailed_token :: "16 word \<Rightarrow> string" where
  "detailed_token ch =
     (let c = uint ch in
      if c > 0xFF then backslash # CHR ''u'' # pad_zero 4 (hex_digits (nat c))
      else if c < 0x20 \<or> c > 0x7E then backslash # CHR ''x'' # pad_zero 2 (hex_digits (nat c))
      else if c = 0x2C then [backslash, CHR '','']
      else if c = 0x5C then [backslash, backslash]
      else if c = 0x22 then [dquote, dquote]
      else [char_of c])"


text \<open>
  What a flush hands to the channel: the content, without its last byte when the cursor
  is at the capacity, and a line terminator.
\<close>

definition flush_bytes :: "MessageBuilder \<Rightarrow> string" where
  "flush_bytes b =
     take (nat (if pos b = kMessageBufferSize then pos b - 1 else pos b)) (buf_of b) @ [newline]"

text \<open>The version record without its terminator, field by field.\<close>

definition version_record :: "Version \<Rightarrow> string" where
  "version_record v =
     ''v8-version,'' @ render_d (GetMajor v) @ '','' @ render_d (GetMinor v) @ '','' @
     render_d (GetBuild v) @ '','' @ render_d (GetPatch v) @ '','' @
     (if c_str (GetEmbedder v) = [] then [] else c_str (GetEmbedder v) @ '','') @
     (if IsCandidate v then ''1'' else ''0'')"

text \<open>
  The implementation-info marker: representation, \<open>e\<close> if external, \<open>#\<close> if internalized,
  and the length of the string between colons.
\<close>

definition impl_marker :: "String \<Rightarrow> string" where
  "impl_marker s =
     (if IsOneByteRepresentation s then ''a'' else ''2'') @
     (if IsExternal s then ''e'' else []) @
     (if IsInternalized s then ''#'' else []) @
     '':'' @ render_d (int (length (chars s))) @ '':''"

section \<open>Example inputs\<close>

definition example_log :: Log where
  "example_log = (Log_ctor 100)\<lparr>output_handle := Some Stdout,
                     message_buffer := Some (replicate 2048 (CHR ''?''))\<rparr>"

definition example_builder :: MessageBuilder where
  "example_builder = MessageBuilder_ctor example_log"


definition example_long_string :: String where
  "example_long_string =
     \<lparr>chars = replicate 5000 0x61, IsOneByteRepresentation = True,
      IsExternal = False, IsInternalized = False\<rparr>"

definition example_full_disk :: MessageBuilder where
  "example_full_disk = MessageBuilder_ctor (example_log\<lparr>room := 0\<rparr>)"

definition example_platform :: Platform where
  "example_platform =
     \<lparr>OS_OpenTemporaryFile = Some (Handle 1), OS_FOpen = Map.empty(''v8.log'' \<mapsto> Handle 2),
      heap_garbage = ''garbage''\<rparr>"

definition example_flags :: Flags where
  "example_flags =
     \<lparr>FLAG_log_all = False, FLAG_log_api = False, FLAG_log_code = False, FLAG_log_gc = False,
      FLAG_log_suspect = False, FLAG_log_handles = False,
      FLAG_log_internal_timer_events = False, FLAG_prof = True\<rparr>"

definition example_version :: Version where
  "example_version =
     \<lparr>GetMajor = 7, GetMinor = 2, GetBuild = 1, GetPatch = 0, GetEmbedder = [],
      IsCandidate = False\<rparr>"

definition example_version_acme :: Version where
  "example_version_acme = example_version\<lparr>GetEmbedder := ''acme''\<rparr>"

definition example_version_long :: Version where
  "example_version_long = example_version\<lparr>GetEmbedder := replicate 2048 (CHR ''e'')\<rparr>"

definition example_temp_log :: Log where
  "example_temp_log = example_log\<lparr>output_handle := Some (Handle 1)\<rparr>"

text \<open>A log stopped by a write failure, its temporary file still open.\<close>

definition example_stopped_log :: Log where
  "example_stopped_log = example_temp_log\<lparr>is_stopped := True\<rparr>"

text \<open>A log whose destination could not be opened: the buffer is allocated, the handle null.\<close>

definition example_unopened_log :: Log where
  "example_unopened_log = example_log\<lparr>output_handle := None\<rparr>"

section \<open>Properties of the buffer operations\<close>

lemma valid_buf: "valid b \<Longrightarrow> message_buffer (log b) = Some (buf_of b) \<and> int (length (buf_of b)) = kMessageBufferSize"
  by (auto simp: valid_def buf_of_def split: option.splits)

lemma holds_content: "valid b \<Longrightarrow> holds b (content b)"
  using valid_buf[of b]
  by (auto simp: holds_def content_def valid_def min_def)

lemma same_channel_refl: "same_channel b b"
  by (simp add: same_channel_def)

lemma same_channel_trans: "same_channel a b \<Longrightarrow> same_channel b c \<Longrightarrow> same_channel a c"
  unfolding same_channel_def
  by (metis Log.update_convs(3) Log.surjective)

lemma store_valid:
  assumes "valid b" "0 \<le> i" "i + int (length bytes) \<le> kMessageBufferSize"
  shows "\<exists>b'. store i bytes b = Some b' \<and> pos b' = pos b \<and> same_channel b b' \<and> valid b'
           \<and> buf_of b' = take (nat i) (buf_of b) @ bytes @ drop (nat i + length bytes) (buf_of b)"
proof -
  obtain buf where buf: "message_buffer (log b) = Some buf" "int (length buf) = kMessageBufferSize"
    using valid_buf[OF assms(1)] by blast
  let ?b' = "b\<lparr>log := (log b)\<lparr>message_buffer :=
                  Some (take (nat i) buf @ bytes @ drop (nat i + length bytes) buf)\<rparr>\<rparr>"
  have "store i bytes b = Some ?b'"
    using buf assms by (simp add: store_def)
  moreover have "valid ?b'"
    using buf assms by (simp add: valid_def)
  moreover have "buf_of b = buf" using buf by (simp add: buf_of_def)
  ultimately show ?thesis
    by (intro exI[of _ ?b']) (simp add: same_channel_def buf_of_def)
qed


lemma holdsD_valid: "holds b req \<Longrightarrow> valid b"
  by (simp add: holds_def)

lemma holds_intro_fit:
  "valid b \<Longrightarrow> int (length req) < kMessageBufferSize \<Longrightarrow> pos b = int (length req)
     \<Longrightarrow> take (length req) (buf_of b) = req \<Longrightarrow> holds b req"
  by (simp add: holds_def content_def)

lemma holds_intro_full:
  "valid b \<Longrightarrow> kMessageBufferSize \<le> int (length req) \<Longrightarrow> pos b = kMessageBufferSize
     \<Longrightarrow> take (nat kMessageBufferSize - 1) (buf_of b) = take (nat kMessageBufferSize - 1) req
     \<Longrightarrow> holds b req"
  by (simp add: holds_def)

lemma set_pos_valid:
  "valid b \<Longrightarrow> 0 \<le> p \<Longrightarrow> p \<le> kMessageBufferSize \<Longrightarrow> valid (b\<lparr>pos := p\<rparr>)"
  by (simp add: valid_def)

lemma set_pos_buf_of [simp]: "buf_of (b\<lparr>pos := p\<rparr>) = buf_of b"
  by (simp add: buf_of_def)

lemma set_pos_same_channel [simp]: "same_channel b (b'\<lparr>pos := p\<rparr>) = same_channel b b'"
  by (simp add: same_channel_def)

lemma AppendVA_holds:
  assumes h: "holds b req"
  shows "\<exists>b'. AppendVA format args b = Some b' \<and> holds b' (req @ vformat None format args)
           \<and> same_channel b b'"
proof -
  let ?s = "vformat None format args"
  have v: "valid b" using h by (rule holdsD_valid)
  have len: "int (length (buf_of b)) = kMessageBufferSize" using valid_buf[OF v] by simp
  have p: "0 \<le> pos b" "pos b \<le> kMessageBufferSize" using v by (simp_all add: valid_def)
  show ?thesis
  proof (cases "int (length req) < kMessageBufferSize")
    case fit: True
    then have pr: "pos b = int (length req)" and c0: "content b = req"
      using h unfolding holds_def by (presburger, presburger)
    have cr: "take (length req) (buf_of b) = req"
      using c0 pr unfolding content_def by (metis nat_int)
    show ?thesis
    proof (cases "int (length ?s) < kMessageBufferSize - pos b")
      case True
      then have vs: "VSNPrintF (nat (kMessageBufferSize - pos b)) format args = (?s @ [NUL], int (length ?s))"
        by (simp add: VSNPrintF_def Let_def)
      obtain b1 where b1: "store (pos b) (?s @ [NUL]) b = Some b1" "pos b1 = pos b"
          "same_channel b b1" "valid b1"
          "buf_of b1 = take (nat (pos b)) (buf_of b) @ (?s @ [NUL]) @
             drop (nat (pos b) + length (?s @ [NUL])) (buf_of b)"
        using store_valid[OF v p(1), of "?s @ [NUL]"] True by auto
      let ?b' = "b1\<lparr>pos := pos b + int (length ?s)\<rparr>"
      have "AppendVA format args b = Some ?b'"
        using p vs b1(1) by (simp add: AppendVA_def)
      moreover have "holds ?b' (req @ ?s)"
      proof (rule holds_intro_fit)
        show "valid ?b'" using b1(4) p True by (intro set_pos_valid) simp_all
        show "int (length (req @ ?s)) < kMessageBufferSize" using True pr by simp
        show "pos ?b' = int (length (req @ ?s))" using pr by simp
        show "take (length (req @ ?s)) (buf_of ?b') = req @ ?s"
          using b1(5) pr cr by simp
      qed
      ultimately show ?thesis using b1(3) by auto
    next
      case False
      let ?k = "nat (kMessageBufferSize - pos b) - 1"
      have pos_lt: "pos b < kMessageBufferSize" using fit pr by simp
      have vs: "VSNPrintF (nat (kMessageBufferSize - pos b)) format args = (take ?k ?s @ [NUL], - 1)"
        using False pos_lt by (simp add: VSNPrintF_def Let_def)
      have lk: "length (take ?k ?s) = ?k" using False by simp
      obtain b1 where b1: "store (pos b) (take ?k ?s @ [NUL]) b = Some b1" "pos b1 = pos b"
          "same_channel b b1" "valid b1"
          "buf_of b1 = take (nat (pos b)) (buf_of b) @ (take ?k ?s @ [NUL]) @
             drop (nat (pos b) + length (take ?k ?s @ [NUL])) (buf_of b)"
        using store_valid[OF v p(1), of "take ?k ?s @ [NUL]"] lk pos_lt by auto
      let ?b' = "b1\<lparr>pos := kMessageBufferSize\<rparr>"
      have "AppendVA format args b = Some ?b'"
        using p vs b1(1) by (simp add: AppendVA_def)
      moreover have "holds ?b' (req @ ?s)"
      proof (rule holds_intro_full)
        show "valid ?b'" using b1(4) p by (intro set_pos_valid) (simp_all add: kMessageBufferSize_def)
        show "kMessageBufferSize \<le> int (length (req @ ?s))" using False pr by simp
        show "pos ?b' = kMessageBufferSize" by simp
        have "nat kMessageBufferSize - 1 = length req + ?k" using pr pos_lt by simp
        then show "take (nat kMessageBufferSize - 1) (buf_of ?b') = take (nat kMessageBufferSize - 1) (req @ ?s)"
          using b1(5) pr cr lk by simp
      qed
      ultimately show ?thesis using b1(3) by auto
    qed
  next
    case full: False
    then have pr: "pos b = kMessageBufferSize"
      and cr: "take (nat kMessageBufferSize - 1) (buf_of b) = take (nat kMessageBufferSize - 1) req"
      using h by (simp_all add: holds_def)
    have vs: "VSNPrintF (nat (kMessageBufferSize - pos b)) format args = ([], - 1)"
      using pr by (simp add: VSNPrintF_def Let_def)
    obtain b1 where b1: "store (pos b) [] b = Some b1" "pos b1 = pos b"
        "same_channel b b1" "valid b1"
        "buf_of b1 = take (nat (pos b)) (buf_of b) @ [] @ drop (nat (pos b) + length ([]::string)) (buf_of b)"
      using store_valid[OF v p(1), of "[]"] pr by auto
    let ?b' = "b1\<lparr>pos := kMessageBufferSize\<rparr>"
    have "AppendVA format args b = Some ?b'"
      using p vs b1(1) by (simp add: AppendVA_def)
    moreover have "holds ?b' (req @ ?s)"
    proof (rule holds_intro_full)
      show "valid ?b'" using b1(4) p by (intro set_pos_valid) (simp_all add: kMessageBufferSize_def)
      show "kMessageBufferSize \<le> int (length (req @ ?s))" using full by simp
      show "pos ?b' = kMessageBufferSize" by simp
      show "take (nat kMessageBufferSize - 1) (buf_of ?b') = take (nat kMessageBufferSize - 1) (req @ ?s)"
        using b1(5) cr full by simp
    qed
    ultimately show ?thesis using b1(3) by auto
  qed
qed


lemma AppendChar_step:
  assumes v: "valid b" and lt: "pos b < kMessageBufferSize"
  shows "\<exists>b'. AppendChar c b = Some b' \<and> valid b' \<and> same_channel b b' \<and> pos b' = pos b + 1
           \<and> buf_of b' = take (nat (pos b)) (buf_of b) @ [c] @ drop (nat (pos b) + 1) (buf_of b)"
proof -
  have p: "0 \<le> pos b" using v by (simp add: valid_def)
  obtain b1 where b1: "store (pos b) [c] b = Some b1" "pos b1 = pos b"
      "same_channel b b1" "valid b1"
      "buf_of b1 = take (nat (pos b)) (buf_of b) @ [c] @ drop (nat (pos b) + length [c]) (buf_of b)"
    using store_valid[OF v p, of "[c]"] lt by auto
  let ?b' = "b1\<lparr>pos := pos b + 1\<rparr>"
  have "AppendChar c b = Some ?b'" using lt b1(1) by (simp add: AppendChar_def)
  moreover have "valid ?b'" using b1(4) p lt by (intro set_pos_valid) simp_all
  ultimately show ?thesis using b1(3,5) by auto
qed

lemma AppendChar_full: "kMessageBufferSize \<le> pos b \<Longrightarrow> AppendChar c b = Some b"
  by (simp add: AppendChar_def)

lemma AppendChar_holds:
  assumes h: "holds b req"
  shows "\<exists>b'. AppendChar c b = Some b' \<and> holds b' (req @ [c]) \<and> same_channel b b'"
proof (cases "int (length req) < kMessageBufferSize")
  case True
  have v: "valid b" using h by (rule holdsD_valid)
  have pr: "pos b = int (length req)" and c0: "content b = req"
    using h True unfolding holds_def by (presburger, presburger)
  have cr: "take (length req) (buf_of b) = req"
    using c0 pr unfolding content_def by (metis nat_int)
  obtain b' where b': "AppendChar c b = Some b'" "valid b'" "same_channel b b'" "pos b' = pos b + 1"
      "buf_of b' = take (nat (pos b)) (buf_of b) @ [c] @ drop (nat (pos b) + 1) (buf_of b)"
    using AppendChar_step[OF v, of c] True pr by auto
  have "holds b' (req @ [c])"
  proof (cases "int (length (req @ [c])) < kMessageBufferSize")
    case True
    then show ?thesis using b' pr cr by (intro holds_intro_fit) simp_all
  next
    case False
    then have "nat kMessageBufferSize - 1 = length req" using True by simp
    then show ?thesis using False b' pr cr True by (intro holds_intro_full) simp_all
  qed
  then show ?thesis using b' by auto
next
  case False
  then have pr: "pos b = kMessageBufferSize"
    and cr: "take (nat kMessageBufferSize - 1) (buf_of b) = take (nat kMessageBufferSize - 1) req"
    using h by (simp_all add: holds_def)
  have "holds b (req @ [c])"
    using h False pr cr by (intro holds_intro_full) (simp_all add: holds_def)
  then show ?thesis using pr by (simp add: AppendChar_full same_channel_refl)
qed

lemma exact_content: "valid b \<Longrightarrow> exact b (content b)"
  using valid_buf[of b] by (auto simp: exact_def content_def valid_def)

lemma AppendChar_exact:
  assumes h: "exact b req"
  shows "\<exists>b'. AppendChar c b = Some b' \<and> exact b' (req @ [c]) \<and> same_channel b b'"
proof (cases "int (length req) < kMessageBufferSize")
  case True
  have v: "valid b" using h by (simp add: exact_def)
  have pr: "pos b = int (length req)" using h True by (simp add: exact_def)
  have "content b = take (nat kMessageBufferSize) req" using h by (simp add: exact_def)
  then have cr: "take (length req) (buf_of b) = req" using pr True by (simp add: content_def)
  obtain b' where b': "AppendChar c b = Some b'" "valid b'" "same_channel b b'" "pos b' = pos b + 1"
      "buf_of b' = take (nat (pos b)) (buf_of b) @ [c] @ drop (nat (pos b) + 1) (buf_of b)"
    using AppendChar_step[OF v, of c] True pr by auto
  have "content b' = req @ [c]" using b'(4,5) pr cr by (simp add: content_def nat_add_distrib)
  then have "exact b' (req @ [c])" using b'(2,4) pr True by (simp add: exact_def)
  then show ?thesis using b' by auto
next
  case False
  then have "exact b (req @ [c])" using h by (simp add: exact_def)
  moreover have "pos b = kMessageBufferSize" using h False by (simp add: exact_def)
  ultimately show ?thesis by (simp add: AppendChar_full same_channel_refl)
qed

lemma quoted_loop_exact:
  "exact b req \<Longrightarrow>
     \<exists>b'. quoted_loop s b = Some b' \<and> exact b' (req @ quote_escape (c_str s)) \<and> same_channel b b'"
proof (induction s arbitrary: b req)
  case Nil
  then show ?case by (simp add: c_str_def same_channel_refl)
next
  case (Cons p ps)
  show ?case
  proof (cases "p = NUL")
    case True
    then show ?thesis using Cons.prems by (simp add: c_str_def same_channel_refl)
  next
    case nz: False
    let ?e = "if p = dquote then [backslash, dquote] else [p]"
    obtain b2 where b2: "(if p = dquote then AppendChar backslash b else Some b) \<bind> AppendChar p = Some b2"
        "exact b2 (req @ ?e)" "same_channel b b2"
    proof (cases "p = dquote")
      case True
      obtain b1 where b1: "AppendChar backslash b = Some b1" "exact b1 (req @ [backslash])" "same_channel b b1"
        using AppendChar_exact[OF Cons.prems] by blast
      obtain b2 where "AppendChar p b1 = Some b2" "exact b2 ((req @ [backslash]) @ [p])" "same_channel b1 b2"
        using AppendChar_exact[OF b1(2)] by blast
      then show ?thesis using that[of b2] b1 True by (auto intro: same_channel_trans)
    next
      case False
      obtain b2 where "AppendChar p b = Some b2" "exact b2 (req @ [p])" "same_channel b b2"
        using AppendChar_exact[OF Cons.prems] by blast
      then show ?thesis using that[of b2] False by auto
    qed
    obtain b' where b': "quoted_loop ps b2 = Some b'" "exact b' ((req @ ?e) @ quote_escape (c_str ps))"
        "same_channel b2 b'"
      using Cons.IH[OF b2(2)] by blast
    have "quoted_loop (p # ps) b = Some b'"
      using nz b2(1) b'(1) by (auto split: bind_splits if_splits)
    moreover have "req @ quote_escape (c_str (p # ps)) = (req @ ?e) @ quote_escape (c_str ps)"
      using nz by (simp add: c_str_def)
    ultimately show ?thesis using b' b2(3) by (auto intro: same_channel_trans)
  qed
qed

lemma AppendDoubleQuotedString_exact:
  assumes "exact b req"
  shows "\<exists>b'. AppendDoubleQuotedString s b = Some b'
           \<and> exact b' (req @ dquote # quote_escape (c_str s) @ [dquote]) \<and> same_channel b b'"
proof -
  obtain b1 where b1: "AppendChar dquote b = Some b1" "exact b1 (req @ [dquote])" "same_channel b b1"
    using AppendChar_exact[OF assms] by blast
  obtain b2 where b2: "quoted_loop s b1 = Some b2"
      "exact b2 ((req @ [dquote]) @ quote_escape (c_str s))" "same_channel b1 b2"
    using quoted_loop_exact[OF b1(2)] by blast
  obtain b3 where b3: "AppendChar dquote b2 = Some b3"
      "exact b3 (((req @ [dquote]) @ quote_escape (c_str s)) @ [dquote])" "same_channel b2 b3"
    using AppendChar_exact[OF b2(2)] by blast
  have "AppendDoubleQuotedString s b = Some b3"
    using b1(1) b2(1) b3(1) by (simp add: AppendDoubleQuotedString_def)
  then show ?thesis using b3 b1(3) b2(3) by (auto intro: same_channel_trans)
qed

lemma quote_escape_no_leading_quote: "quote_escape s \<noteq> dquote # t"
  by (cases s) auto

lemma quote_roundtrip: "quote_unescape (quote_escape s) = s"
proof (induction s)
  case Nil
  then show ?case by simp
next
  case (Cons c cs)
  show ?case
  proof (cases "c = dquote")
    case True
    then show ?thesis using Cons.IH by simp
  next
    case False
    then show ?thesis using Cons.IH quote_escape_no_leading_quote[of cs]
      by (cases "quote_escape cs") auto
  qed
qed

lemma c_str_id: "NUL \<notin> set s \<Longrightarrow> c_str s = s"
  by (auto simp: c_str_def)


lemma render_x_uint: "render_x (uint (ch :: 16 word)) = hex_digits (nat (uint ch))"
proof -
  have "uint ch < 2 ^ 16" using uint_bounded[of ch] by simp
  then have "uint ch mod 2 ^ 32 = uint ch" by simp
  then show ?thesis by (simp add: render_x_def)
qed

lemma detailed_char_holds:
  assumes "holds b req"
  shows "\<exists>b'. detailed_char ch b = Some b' \<and> holds b' (req @ detailed_token ch) \<and> same_channel b b'"
proof -
  have *: "\<And>format args. vformat None format args = detailed_token ch
             \<Longrightarrow> \<exists>b'. Append format args b = Some b' \<and> holds b' (req @ detailed_token ch)
                    \<and> same_channel b b'"
    using AppendVA_holds[OF assms] by (metis Append_def)
  consider "uint ch > 0xff" | "uint ch \<le> 0xff" "uint ch < 32 \<or> uint ch > 126"
    | "uint ch = 0x2C" | "uint ch = 0x5C" | "uint ch = 0x22"
    | "uint ch \<le> 0xff" "\<not> (uint ch < 32 \<or> uint ch > 126)" "uint ch \<noteq> 0x2C" "uint ch \<noteq> 0x5C" "uint ch \<noteq> 0x22"
    by linarith
  then show ?thesis
  proof cases
    case 1
    then show ?thesis
      using *[of "backslash # ''u%04x''" "[ArgInt (uint ch)]"]
      by (simp add: detailed_char_def detailed_token_def convert_def render_x_uint)
  next
    case 2
    then show ?thesis
      using *[of "backslash # ''x%02x''" "[ArgInt (uint ch)]"]
      by (simp add: detailed_char_def detailed_token_def convert_def render_x_uint)
  next
    case 3
    then show ?thesis
      using *[of "[backslash, CHR '','']" "[]"]
      by (simp add: detailed_char_def detailed_token_def)
  next
    case 4
    then show ?thesis
      using *[of "[backslash, backslash]" "[]"]
      by (simp add: detailed_char_def detailed_token_def)
  next
    case 5
    then show ?thesis
      using *[of "[dquote, dquote]" "[]"]
      by (simp add: detailed_char_def detailed_token_def)
  next
    case 6
    then show ?thesis
      using *[of "''%lc''" "[ArgInt (uint ch)]"]
      by (simp add: detailed_char_def detailed_token_def convert_def)
  qed
qed

lemma detailed_loop_holds:
  "holds b req \<Longrightarrow>
     \<exists>b'. detailed_loop cs b = Some b' \<and> holds b' (req @ concat (map detailed_token cs))
          \<and> same_channel b b'"
proof (induction cs arbitrary: b req)
  case Nil
  then show ?case by (simp add: same_channel_refl)
next
  case (Cons ch cs)
  obtain b1 where b1: "detailed_char ch b = Some b1" "holds b1 (req @ detailed_token ch)"
      "same_channel b b1"
    using detailed_char_holds[OF Cons.prems] by blast
  obtain b' where b': "detailed_loop cs b1 = Some b'"
      "holds b' ((req @ detailed_token ch) @ concat (map detailed_token cs))" "same_channel b1 b'"
    using Cons.IH[OF b1(2)] by blast
  show ?case using b1 b' by (auto intro: same_channel_trans)
qed

lemma optional_holds:
  assumes "holds b req"
    and "c \<Longrightarrow> \<exists>b'. f b = Some b' \<and> holds b' (req @ x) \<and> same_channel b b'"
  shows "\<exists>b'. (if c then f b else Some b) = Some b' \<and> holds b' (req @ (if c then x else []))
           \<and> same_channel b b'"
  using assms by (cases c) (simp_all add: same_channel_refl)

lemma impl_info_holds:
  assumes "holds b req"
  shows "\<exists>b'. impl_info s b = Some b' \<and> holds b' (req @ impl_marker s) \<and> same_channel b b'"
proof -
  let ?m = "if IsOneByteRepresentation s then CHR ''a'' else CHR ''2''"
  let ?e = "if IsExternal s then ''e'' else []"
  let ?i = "if IsInternalized s then ''#'' else []"
  obtain b1 where b1: "AppendChar ?m b = Some b1" "holds b1 (req @ [?m])" "same_channel b b1"
    using AppendChar_holds[OF assms] by blast
  obtain b2 where b2: "(if IsExternal s then AppendChar (CHR ''e'') b1 else Some b1) = Some b2"
      "holds b2 ((req @ [?m]) @ ?e)" "same_channel b1 b2"
    using optional_holds[OF b1(2), of "IsExternal s" "AppendChar (CHR ''e'')" "''e''"]
      AppendChar_holds[OF b1(2), of "CHR ''e''"] by blast
  obtain b3 where b3: "(if IsInternalized s then AppendChar (CHR ''#'') b2 else Some b2) = Some b3"
      "holds b3 (((req @ [?m]) @ ?e) @ ?i)" "same_channel b2 b3"
    using optional_holds[OF b2(2), of "IsInternalized s" "AppendChar (CHR ''#'')" "''#''"]
      AppendChar_holds[OF b2(2), of "CHR ''#''"] by blast
  obtain b4 where b4: "Append '':%i:'' [ArgInt (str_length s)] b3 = Some b4"
      "holds b4 ((((req @ [?m]) @ ?e) @ ?i) @ vformat None '':%i:'' [ArgInt (str_length s)])"
      "same_channel b3 b4"
    using AppendVA_holds[OF b3(2)] unfolding Append_def by blast
  have "impl_info s b = Some b4"
    using b1(1) b2(1) b3(1) b4(1) by (simp add: impl_info_def)
  moreover have "(((req @ [?m]) @ ?e) @ ?i) @ vformat None '':%i:'' [ArgInt (str_length s)]
                   = req @ impl_marker s"
    by (simp add: impl_marker_def convert_def str_length_def)
  ultimately show ?thesis
    using b4(2) b1(3) b2(3) b3(3) b4(3) by (metis same_channel_trans)
qed

lemma detailed_len: "take (nat (if str_length s > 0x1000 then 0x1000 else str_length s)) (chars s)
    = take 4096 (chars s)"
  by (simp add: str_length_def)

lemma AppendDetailed_holds:
  assumes "holds b req"
  shows "\<exists>b'. AppendDetailed (Some s) flag b = Some b'
           \<and> holds b' (req @ (if flag then impl_marker s else []) @
                         concat (map detailed_token (take 4096 (chars s))))
           \<and> same_channel b b'"
proof -
  obtain b1 where b1: "(if flag then impl_info s b else Some b) = Some b1"
      "holds b1 (req @ (if flag then impl_marker s else []))" "same_channel b b1"
    using optional_holds[OF assms, of flag "impl_info s" "impl_marker s"]
      impl_info_holds[OF assms, of s] by blast
  obtain b' where b': "detailed_loop (take 4096 (chars s)) b1 = Some b'"
      "holds b' ((req @ (if flag then impl_marker s else [])) @
                  concat (map detailed_token (take 4096 (chars s))))" "same_channel b1 b'"
    using detailed_loop_holds[OF b1(2)] by blast
  have "AppendDetailed (Some s) flag b = Some b'"
    using b1(1) b'(1) by (simp add: AppendDetailed_def Let_def detailed_len)
  then show ?thesis using b'(2,3) b1(3) by (auto intro: same_channel_trans)
qed

lemma holds_prefix:
  assumes "holds b (req @ rest)" "int (length req) < kMessageBufferSize"
  shows "take (length req) (buf_of b) = req"
proof (cases "int (length (req @ rest)) < kMessageBufferSize")
  case True
  then have "pos b = int (length (req @ rest))" and "content b = req @ rest"
    using assms(1) unfolding holds_def by (presburger, presburger)
  then have "take (length (req @ rest)) (buf_of b) = req @ rest"
    unfolding content_def by (metis nat_int)
  then have "take (length req) (take (length (req @ rest)) (buf_of b)) = take (length req) (req @ rest)"
    by simp
  then show ?thesis by (simp add: min_def)
next
  case False
  then have "take (nat kMessageBufferSize - 1) (buf_of b) = take (nat kMessageBufferSize - 1) (req @ rest)"
    using assms(1) unfolding holds_def by presburger
  then have "take (length req) (take (nat kMessageBufferSize - 1) (buf_of b))
               = take (length req) (take (nat kMessageBufferSize - 1) (req @ rest))"
    by simp
  moreover have "length req \<le> nat kMessageBufferSize - 1" using assms(2) by simp
  ultimately show ?thesis by (simp add: min_def)
qed


lemma WriteToFile_buffer:
  "WriteToFile msg (L\<lparr>message_buffer := m\<rparr>)
     = ((fst (WriteToFile msg L))\<lparr>message_buffer := m\<rparr>, snd (WriteToFile msg L))"
  by (simp add: WriteToFile_def IsEnabled_def Let_def)

lemma WriteToFile_fields:
  "requests (fst (WriteToFile msg L)) = requests L @ [msg]"
  "is_stopped (fst (WriteToFile msg L)) = is_stopped L"
  "failures (fst (WriteToFile msg L)) = failures L"
  "output_handle (fst (WriteToFile msg L)) = output_handle L"
  "closed (fst (WriteToFile msg L)) = closed L"
  by (simp_all add: WriteToFile_def Let_def)

lemma fetch_valid:
  assumes "valid b" "0 \<le> n" "n \<le> kMessageBufferSize"
  shows "fetch n b = Some (take (nat n) (buf_of b))"
  using valid_buf[OF assms(1)] assms(2,3) by (simp add: fetch_def)

lemma flush_bytes_length:
  assumes "valid b"
  shows "int (length (flush_bytes b)) \<le> kMessageBufferSize"
    and "int (length (flush_bytes b))
           = (if pos b = kMessageBufferSize then pos b - 1 else pos b) + 1"
  using valid_buf[OF assms] assms
  by (auto simp: flush_bytes_def valid_def kMessageBufferSize_def)

lemma example_valid: "valid example_builder"
  by (simp add: valid_def example_builder_def MessageBuilder_ctor_def example_log_def Log_ctor_def kMessageBufferSize_def)

lemma example_content: "content example_builder = []" "pos example_builder = 0"
  by (simp_all add: content_def example_builder_def MessageBuilder_ctor_def)

lemma AppendStringPart_valid:
  assumes v: "valid b"
  shows "case AppendStringPart str len b of
           None \<Rightarrow> len < 0 \<or> INT_MAX < pos b + len
         | Some b' \<Rightarrow> valid b' \<and> same_channel b b'
                      \<and> pos b' = min kMessageBufferSize (pos b + len)"
proof -
  have p: "0 \<le> pos b" "pos b \<le> kMessageBufferSize" using v by (simp_all add: valid_def)
  consider "INT_MAX < pos b + len" | "len < 0" "pos b + len \<le> INT_MAX"
    | "0 \<le> len" "pos b + len \<le> INT_MAX" "kMessageBufferSize < pos b + len" "pos b = kMessageBufferSize"
    | "0 \<le> len" "pos b + len \<le> INT_MAX" "kMessageBufferSize < pos b + len" "pos b < kMessageBufferSize"
    | "0 \<le> len" "pos b + len \<le> INT_MAX" "pos b + len \<le> kMessageBufferSize"
    using p by linarith
  then show ?thesis
  proof cases
    case 1
    then show ?thesis by (simp add: AppendStringPart_def)
  next
    case 2
    then show ?thesis using p by (simp add: AppendStringPart_def Let_def)
  next
    case 3
    then show ?thesis using v by (simp add: AppendStringPart_def Let_def same_channel_refl)
  next
    case 4
    let ?n = "kMessageBufferSize - pos b"
    have l: "length (StrNCpy str (nat ?n)) = nat ?n" by (simp add: StrNCpy_def)
    obtain b1 where b1: "store (pos b) (StrNCpy str (nat ?n)) b = Some b1" "pos b1 = pos b"
        "same_channel b b1" "valid b1"
      using store_valid[OF v p(1), of "StrNCpy str (nat ?n)"] l 4 by auto
    have "AppendStringPart str len b = Some (b1\<lparr>pos := pos b + ?n\<rparr>)"
      using 4 b1(1) by (simp add: AppendStringPart_def Let_def)
    moreover have "valid (b1\<lparr>pos := pos b + ?n\<rparr>)"
      using b1(4) p by (intro set_pos_valid) simp_all
    ultimately show ?thesis using b1(3) 4 by simp
  next
    case 5
    have l: "length (StrNCpy str (nat len)) = nat len" by (simp add: StrNCpy_def)
    obtain b1 where b1: "store (pos b) (StrNCpy str (nat len)) b = Some b1" "pos b1 = pos b"
        "same_channel b b1" "valid b1"
      using store_valid[OF v p(1), of "StrNCpy str (nat len)"] l 5 by auto
    have "AppendStringPart str len b = Some (b1\<lparr>pos := pos b + len\<rparr>)"
      using 5 b1(1) by (simp add: AppendStringPart_def Let_def)
    moreover have "valid (b1\<lparr>pos := pos b + len\<rparr>)"
      using b1(4) p 5 by (intro set_pos_valid) simp_all
    ultimately show ?thesis using b1(3) 5 by simp
  qed
qed

lemma holds_valid_len: "valid b \<Longrightarrow> int (length (content b)) = pos b"
  using valid_buf[of b] by (auto simp: content_def valid_def min_def)

lemma WriteToLogFile_buffer:
  assumes v: "valid b"
  shows "\<exists>b'. WriteToLogFile b = Some b' \<and> pos b' = int (length (flush_bytes b))
           \<and> content b' = flush_bytes b
           \<and> log b' = (let (L, written) = WriteToFile (flush_bytes b) (log b);
                           L1 = (if written \<noteq> int (length (flush_bytes b))
                                 then LogFailure (stop L) else L)
                       in L1\<lparr>message_buffer := message_buffer (log b')\<rparr>)"
proof -
  let ?p = "if pos b = kMessageBufferSize then pos b - 1 else pos b"
  have p: "0 \<le> ?p" "?p + int (length [newline]) \<le> kMessageBufferSize"
    using v by (auto simp: valid_def kMessageBufferSize_def)
  obtain b1 where b1: "store ?p [newline] b = Some b1" "pos b1 = pos b"
      "same_channel b b1" "valid b1"
      "buf_of b1 = take (nat ?p) (buf_of b) @ [newline] @ drop (nat ?p + length [newline]) (buf_of b)"
    using store_valid[OF v p] by blast
  let ?b2 = "b1\<lparr>pos := ?p + 1\<rparr>"
  have v2: "valid ?b2" using b1(4) p by (intro set_pos_valid) simp_all
  have lenb: "int (length (buf_of b)) = kMessageBufferSize" using valid_buf[OF v] by simp
  have tk: "take (nat (?p + 1)) (buf_of b1) = flush_bytes b"
    using b1(5) lenb p by (simp add: flush_bytes_def nat_add_distrib)
  then have f: "fetch (pos ?b2) ?b2 = Some (flush_bytes b)"
    using fetch_valid[OF v2, of "?p + 1"] p by simp
  let ?m = "message_buffer (log b1)"
  have l2: "log b1 = (log b)\<lparr>message_buffer := ?m\<rparr>"
    using b1(3) by (simp add: same_channel_def)
  have fl: "?p + 1 = int (length (flush_bytes b))"
    using flush_bytes_length(2)[OF v] by simp
  obtain L w where Lw: "WriteToFile (flush_bytes b) (log b) = (L, w)" by fastforce
  have Lw1: "WriteToFile (flush_bytes b) (log b1) = (L\<lparr>message_buffer := ?m\<rparr>, w)"
    using Lw WriteToFile_buffer[where msg = "flush_bytes b" and L = "log b" and m = ?m] l2 by simp
  let ?L1 = "if w \<noteq> int (length (flush_bytes b)) then LogFailure (stop L) else L"
  let ?b' = "?b2\<lparr>log := ?L1\<lparr>message_buffer := ?m\<rparr>\<rparr>"
  have "WriteToLogFile b
          = Some (if w \<noteq> pos ?b2 then ?b2\<lparr>log := LogFailure (stop (L\<lparr>message_buffer := ?m\<rparr>))\<rparr>
                  else ?b2\<lparr>log := L\<lparr>message_buffer := ?m\<rparr>\<rparr>)"
    unfolding WriteToLogFile_def Let_def
    using b1(1) f Lw1 by simp
  also have "\<dots> = Some ?b'"
    using fl by (simp add: LogFailure_def stop_def)
  finally have w: "WriteToLogFile b = Some ?b'" .
  have "buf_of ?b' = buf_of b1"
    using valid_buf[OF b1(4)] by (simp add: buf_of_def)
  then have "content ?b' = flush_bytes b"
    using tk by (simp add: content_def)
  then show ?thesis
    using w fl Lw by (intro exI[of _ ?b']) simp
qed

lemmas example_defs = example_builder_def MessageBuilder_ctor_def example_log_def Log_ctor_def

lemma emit_version_requests:
  assumes "message_buffer L = Some buf" "int (length buf) = kMessageBufferSize"
  shows "\<exists>L'. emit_version v L = Some L'
           \<and> requests L' = requests L @
                [take (nat kMessageBufferSize - 1) (version_record v) @ [newline]]
           \<and> output_handle L' = output_handle L"
proof -
  let ?b = "MessageBuilder_ctor L"
  have v: "valid ?b" using assms by (simp add: valid_def MessageBuilder_ctor_def kMessageBufferSize_def)
  have c: "content ?b = []" by (simp add: content_def MessageBuilder_ctor_def)
  have h: "holds ?b []" using holds_content[OF v] c by simp
  let ?msg1 = "if strlen (GetEmbedder v) = 0
        then Append ''v8-version,%d,%d,%d,%d,%d''
               [ArgInt (GetMajor v), ArgInt (GetMinor v), ArgInt (GetBuild v),
                ArgInt (GetPatch v), ArgInt (bool_int (IsCandidate v))] ?b
        else Append ''v8-version,%d,%d,%d,%d,%s,%d''
               [ArgInt (GetMajor v), ArgInt (GetMinor v), ArgInt (GetBuild v),
                ArgInt (GetPatch v), ArgStr (GetEmbedder v),
                ArgInt (bool_int (IsCandidate v))] ?b"
  have r1: "render_d (bool_int x) = (if x then ''1'' else ''0'')" for x
    by (simp add: bool_int_def render_d_def dec_digits.simps)
  obtain b1 where b1: "?msg1 = Some b1" "holds b1 (version_record v)" "same_channel ?b b1"
  proof (cases "strlen (GetEmbedder v) = 0")
    case True
    then have e: "c_str (GetEmbedder v) = []" by (simp add: strlen_def)
    obtain b1 where "Append ''v8-version,%d,%d,%d,%d,%d''
               [ArgInt (GetMajor v), ArgInt (GetMinor v), ArgInt (GetBuild v),
                ArgInt (GetPatch v), ArgInt (bool_int (IsCandidate v))] ?b = Some b1"
       "holds b1 ([] @ vformat None ''v8-version,%d,%d,%d,%d,%d''
               [ArgInt (GetMajor v), ArgInt (GetMinor v), ArgInt (GetBuild v),
                ArgInt (GetPatch v), ArgInt (bool_int (IsCandidate v))])" "same_channel ?b b1"
      using AppendVA_holds[OF h] unfolding Append_def by blast
    then show ?thesis using that[of b1] True e
      by (simp add: convert_def version_record_def r1)
  next
    case False
    then have e: "c_str (GetEmbedder v) \<noteq> []" by (simp add: strlen_def)
    obtain b1 where "Append ''v8-version,%d,%d,%d,%d,%s,%d''
               [ArgInt (GetMajor v), ArgInt (GetMinor v), ArgInt (GetBuild v),
                ArgInt (GetPatch v), ArgStr (GetEmbedder v),
                ArgInt (bool_int (IsCandidate v))] ?b = Some b1"
       "holds b1 ([] @ vformat None ''v8-version,%d,%d,%d,%d,%s,%d''
               [ArgInt (GetMajor v), ArgInt (GetMinor v), ArgInt (GetBuild v),
                ArgInt (GetPatch v), ArgStr (GetEmbedder v),
                ArgInt (bool_int (IsCandidate v))])" "same_channel ?b b1"
      using AppendVA_holds[OF h] unfolding Append_def by blast
    then show ?thesis using that[of b1] False e
      by (simp add: convert_def version_record_def r1)
  qed
  have v1: "valid b1" using b1(2) by (rule holdsD_valid)
  obtain b2 where b2: "WriteToLogFile b1 = Some b2"
      "log b2 = (let (L, written) = WriteToFile (flush_bytes b1) (log b1);
                           L1 = (if written \<noteq> int (length (flush_bytes b1))
                                 then LogFailure (stop L) else L)
                       in L1\<lparr>message_buffer := message_buffer (log b2)\<rparr>)"
    using WriteToLogFile_buffer[OF v1] by blast
  have fb: "flush_bytes b1 = take (nat kMessageBufferSize - 1) (version_record v) @ [newline]"
  proof (cases "int (length (version_record v)) < kMessageBufferSize")
    case True
    then have "pos b1 = int (length (version_record v))" "content b1 = version_record v"
      using b1(2) unfolding holds_def by (presburger, presburger)
    then show ?thesis using True by (simp add: flush_bytes_def content_def)
  next
    case False
    then have "pos b1 = kMessageBufferSize"
       "take (nat kMessageBufferSize - 1) (buf_of b1) = take (nat kMessageBufferSize - 1) (version_record v)"
      using b1(2) unfolding holds_def by (presburger, presburger)
    then show ?thesis by (simp add: flush_bytes_def kMessageBufferSize_def)
  qed
  have lb1: "log b1 = L\<lparr>message_buffer := message_buffer (log b1)\<rparr>"
    using b1(3) by (simp add: same_channel_def MessageBuilder_ctor_def)
  have rq: "requests (log b1) = requests L" "output_handle (log b1) = output_handle L"
    by (subst lb1, simp)+
  have "requests (log b2) = requests (log b1) @ [flush_bytes b1]"
    by (subst b2(2)) (simp add: Let_def split_beta WriteToFile_fields LogFailure_def stop_def)
  moreover have "output_handle (log b2) = output_handle (log b1)"
    by (subst b2(2)) (simp add: Let_def split_beta WriteToFile_fields LogFailure_def stop_def)
  moreover have "emit_version v L = Some (log b2)"
    using b1(1) b2(1) by (simp add: emit_version_def Let_def)
  ultimately show ?thesis using fb rq by simp
qed

lemma NewArray_length: "0 \<le> n \<Longrightarrow> int (length (NewArray os n)) = n"
  by (simp add: NewArray_def)

lemma Initialize_requests:
  assumes "InitLogAtStart (resolve_flags F)"
    and "output_handle (open_log os log_file_name L) = Some h"
  shows "\<exists>L'. Initialize os InitLogAtStart v log_file_name F L = Some (resolve_flags F, L')
           \<and> output_handle L' = Some h
           \<and> requests L' = requests L @
                [take (nat kMessageBufferSize - 1) (version_record v) @ [newline]]"
proof -
  let ?L1 = "L\<lparr>message_buffer := Some (NewArray os kMessageBufferSize)\<rparr>"
  let ?L2 = "open_log os log_file_name ?L1"
  have o: "output_handle ?L2 = Some h" "requests ?L2 = requests L"
      "message_buffer ?L2 = Some (NewArray os kMessageBufferSize)"
    using assms(2)
    by (auto simp: open_log_def OpenStdout_def OpenTemporaryFile_def OpenFile_def split: if_splits)
  have "int (length (NewArray os kMessageBufferSize)) = kMessageBufferSize"
    by (rule NewArray_length) (simp add: kMessageBufferSize_def)
  then obtain L' where L': "emit_version v ?L2 = Some L'"
      "requests L' = requests ?L2 @ [take (nat kMessageBufferSize - 1) (version_record v) @ [newline]]"
      "output_handle L' = output_handle ?L2"
    using emit_version_requests[OF o(3), of v] by blast
  have "Initialize os InitLogAtStart v log_file_name F L = Some (resolve_flags F, L')"
    using assms(1) o(1) L'(1) by (simp add: Initialize_def Let_def)
  then show ?thesis using L' o by simp
qed


lemma requests_Log_ctor: "requests (Log_ctor r) = []"
  by (simp add: Log_ctor_def)

lemma example_start:
  "FLAG_log_code (resolve_flags example_flags)"
  "output_handle (open_log example_platform ''v8.log'' (Log_ctor r)) = Some (Handle 2)"
  by (simp_all add: resolve_flags_def example_flags_def open_log_def strcmp_eq_def c_str_def
        kLogToConsole_def kLogToTemporaryFile_def OpenFile_def example_platform_def)

lemma dec_digits_length: "n < 10 ^ k \<Longrightarrow> 0 < k \<Longrightarrow> length (dec_digits n) \<le> k"
proof (induction k arbitrary: n)
  case 0
  then show ?case by simp
next
  case (Suc k)
  show ?case
  proof (cases "n < 10")
    case True
    then show ?thesis by (simp add: dec_digits.simps)
  next
    case False
    have "n div 10 < 10 ^ k" using Suc.prems(1) by (simp add: less_mult_imp_div_less mult.commute)
    moreover have "0 < k" using False Suc.prems(1) by (cases k) simp_all
    ultimately have "length (dec_digits (n div 10)) \<le> k" using Suc.IH by blast
    then show ?thesis using False by (subst dec_digits.simps) simp
  qed
qed

lemma render_d_length:
  assumes "- (2 ^ 31) \<le> n" "n < 2 ^ 31"
  shows "length (render_d n) \<le> 11"
proof -
  have "nat (- n) < 10 ^ 10" "nat n < 10 ^ 10" using assms by simp_all
  then have "length (dec_digits (nat (- n))) \<le> 10" "length (dec_digits (nat n)) \<le> 10"
    using dec_digits_length[of _ 10] by simp_all
  then show ?thesis by (simp add: render_d_def)
qed

lemma version_record_short:
  assumes "strlen (GetEmbedder v) = 0"
    and "\<forall>n \<in> {GetMajor v, GetMinor v, GetBuild v, GetPatch v}. - (2 ^ 31) \<le> n \<and> n < 2 ^ 31"
  shows "int (length (version_record v)) < kMessageBufferSize"
proof -
  have "length (render_d (GetMajor v)) \<le> 11" "length (render_d (GetMinor v)) \<le> 11"
      "length (render_d (GetBuild v)) \<le> 11" "length (render_d (GetPatch v)) \<le> 11"
    using assms(2) by (simp_all add: render_d_length)
  moreover have "c_str (GetEmbedder v) = []" using assms(1) by (simp add: strlen_def)
  ultimately show ?thesis by (simp add: version_record_def kMessageBufferSize_def)
qed

lemma version_record_long:
  "take 2047 (version_record example_version_long)
     = ''v8-version,7,2,1,0,'' @ replicate 2028 (CHR ''e'')"
  by (simp add: version_record_def example_version_long_def example_version_def render_d_def
        dec_digits.simps c_str_def)









section \<open>The claims\<close>

text \<open>
  C3. The cursor never exceeds the capacity. From a well-formed builder, \<open>AppendVA\<close> and
  \<open>Append(char)\<close> always return a well-formed builder, whose cursor is at most
  \<open>kMessageBufferSize\<close>: \<open>AppendVA\<close> advances the cursor by the length of the output when
  it fits below the remaining space and pins it to the capacity otherwise; \<open>Append(char)\<close>
  advances by one below the capacity and does nothing at it. \<open>AppendStringPart\<close> clips the
  length to the remaining space; it has no defined behaviour only when the length is
  negative or the sum with the cursor overflows. Every store of these operations lies
  inside the buffer, or the result would be \<open>None\<close>.
\<close>

theorem cursor_within_capacity:
  assumes "valid b"
  shows "(\<exists>b'. AppendVA format args b = Some b' \<and> valid b' \<and> pos b' \<le> kMessageBufferSize
            \<and> pos b' = (if int (length (vformat None format args)) < kMessageBufferSize - pos b
                        then pos b + int (length (vformat None format args))
                        else kMessageBufferSize))
       \<and> (\<exists>b'. AppendChar c b = Some b' \<and> valid b' \<and> pos b' \<le> kMessageBufferSize
            \<and> pos b' = (if pos b < kMessageBufferSize then pos b + 1 else pos b))
       \<and> (case AppendStringPart str len b of
             None \<Rightarrow> len < 0 \<or> INT_MAX < pos b + len
           | Some b' \<Rightarrow> valid b' \<and> pos b' \<le> kMessageBufferSize
                         \<and> pos b' = min kMessageBufferSize (pos b + len))"
proof (intro conjI)
  have l: "int (length (content b)) = pos b" using assms by (rule holds_valid_len)
  obtain b1 where b1: "AppendVA format args b = Some b1"
      "holds b1 (content b @ vformat None format args)"
    using AppendVA_holds[OF holds_content[OF assms]] by blast
  then have "valid b1" by (simp add: holds_def)
  moreover have "pos b1 = (if int (length (vformat None format args)) < kMessageBufferSize - pos b
                        then pos b + int (length (vformat None format args))
                        else kMessageBufferSize)"
    using b1(2) l by (auto simp: holds_def)
  ultimately show "\<exists>b'. AppendVA format args b = Some b' \<and> valid b' \<and> pos b' \<le> kMessageBufferSize
            \<and> pos b' = (if int (length (vformat None format args)) < kMessageBufferSize - pos b
                        then pos b + int (length (vformat None format args))
                        else kMessageBufferSize)"
    using b1(1) by (simp add: valid_def)
next
  show "\<exists>b'. AppendChar c b = Some b' \<and> valid b' \<and> pos b' \<le> kMessageBufferSize
            \<and> pos b' = (if pos b < kMessageBufferSize then pos b + 1 else pos b)"
  proof (cases "pos b < kMessageBufferSize")
    case True
    then show ?thesis using AppendChar_step[OF assms True, of c] by (auto simp: valid_def)
  next
    case False
    then show ?thesis using assms by (simp add: AppendChar_full valid_def)
  qed
next
  show "case AppendStringPart str len b of
             None \<Rightarrow> len < 0 \<or> INT_MAX < pos b + len
           | Some b' \<Rightarrow> valid b' \<and> pos b' \<le> kMessageBufferSize
                         \<and> pos b' = min kMessageBufferSize (pos b + len)"
    using AppendStringPart_valid[OF assms, where str = str and len = len]
    by (auto split: option.splits)
qed

theorem cursor_within_capacity_witness:
  "valid example_builder
   \<and> (\<exists>b'. AppendVA ''%d,%s'' [ArgInt 42, ArgStr ''abc''] example_builder = Some b' \<and> pos b' = 6)
   \<and> (\<exists>b'. AppendChar (CHR ''x'') example_builder = Some b' \<and> pos b' = 1)
   \<and> (\<exists>b'. AppendStringPart ''hello'' 3000 example_builder = Some b' \<and> pos b' = 2048)"
  using cursor_within_capacity[OF example_valid, where format = "''%d,%s''"
      and args = "[ArgInt 42, ArgStr ''abc'']" and c = "CHR ''x''" and str = "''hello''" and len = 3000]
  by (auto simp: example_valid example_content convert_def render_d_def dec_digits.simps c_str_def
        kMessageBufferSize_def INT_MAX_def split: option.splits)

text \<open>
  C10. With a null string pointer, \<open>AppendDetailed\<close> and \<open>AppendUnbufferedHeapString\<close>
  return the builder they were given: buffer, cursor and channel are unchanged, and nothing
  is written.
\<close>

theorem null_string_noop:
  "AppendDetailed None show_impl_info b = Some b \<and> AppendUnbufferedHeapString None b = Some b"
  by (simp add: AppendDetailed_def AppendUnbufferedHeapString_def)

text \<open>
  C4. A flush of a well-formed builder makes exactly one request to the channel. Its bytes
  are the accumulated content followed by one line terminator; when the cursor is at the
  capacity it is first backed off by one, so that the terminator takes the place of the
  last byte. The bytes requested are the region \<open>[0, pos_)\<close> of the buffer after the
  terminator is stored, and their number is at most \<open>kMessageBufferSize\<close>.
\<close>

theorem flush_single_write:
  assumes "valid b"
  shows "\<exists>b'. WriteToLogFile b = Some b'
           \<and> requests (log b') = requests (log b) @
                [take (nat (if pos b = kMessageBufferSize then pos b - 1 else pos b)) (buf_of b)
                 @ [newline]]
           \<and> content b' =
                take (nat (if pos b = kMessageBufferSize then pos b - 1 else pos b)) (buf_of b)
                @ [newline]
           \<and> pos b' = (if pos b = kMessageBufferSize then pos b - 1 else pos b) + 1
           \<and> int (length (last (requests (log b')))) = pos b'
           \<and> pos b' \<le> kMessageBufferSize"
proof -
  obtain b' where b': "WriteToLogFile b = Some b'" "pos b' = int (length (flush_bytes b))"
      "content b' = flush_bytes b"
      "log b' = (let (L, written) = WriteToFile (flush_bytes b) (log b);
                           L1 = (if written \<noteq> int (length (flush_bytes b))
                                 then LogFailure (stop L) else L)
                       in L1\<lparr>message_buffer := message_buffer (log b')\<rparr>)"
    using WriteToLogFile_buffer[OF assms] by blast
  have "requests (log b') = requests (log b) @ [flush_bytes b]"
    by (subst b'(4)) (simp add: Let_def split_beta WriteToFile_fields LogFailure_def stop_def)
  then show ?thesis
    using b'(1,2,3) flush_bytes_length[OF assms]
    by (auto simp: flush_bytes_def)
qed

theorem flush_single_write_witness:
  "valid (example_builder\<lparr>pos := 3\<rparr>)
   \<and> (\<exists>b'. WriteToLogFile (example_builder\<lparr>pos := 3\<rparr>) = Some b'
          \<and> requests (log b') = [''???'' @ [newline]] \<and> pos b' = 4)
   \<and> valid (example_builder\<lparr>pos := 2048\<rparr>)
   \<and> (\<exists>b'. WriteToLogFile (example_builder\<lparr>pos := 2048\<rparr>) = Some b'
          \<and> requests (log b') = [replicate 2047 (CHR ''?'') @ [newline]] \<and> pos b' = 2048)"
proof -
  have v: "valid (example_builder\<lparr>pos := 3\<rparr>)" "valid (example_builder\<lparr>pos := 2048\<rparr>)"
    by (simp_all add: valid_def example_defs kMessageBufferSize_def)
  show ?thesis
    using v flush_single_write[OF v(1)] flush_single_write[OF v(2)]
    by (auto simp: example_defs buf_of_def kMessageBufferSize_def numeral_3_eq_3)
qed

text \<open>
  C5. In a flush, the channel is stopped and the failure sink notified, exactly once,
  when the number of bytes the channel reports differs from the number requested; when
  the two are equal, the stop flag and the count of notifications are left as they were.
  The number reported is the result of \<open>WriteToFile\<close> on the bytes flushed; it does not
  depend on the content of the buffer field, so it is taken on the log before the flush.
\<close>

theorem flush_failure_escalation:
  assumes "valid b"
  shows "\<exists>b'. WriteToLogFile b = Some b'
           \<and> (if snd (WriteToFile (flush_bytes b) (log b)) \<noteq> int (length (flush_bytes b))
              then is_stopped (log b') \<and> \<not> IsEnabled (log b')
                   \<and> failures (log b') = Suc (failures (log b))
              else is_stopped (log b') = is_stopped (log b)
                   \<and> failures (log b') = failures (log b))"
proof -
  obtain b' where b': "WriteToLogFile b = Some b'" 
      "log b' = (let (L, written) = WriteToFile (flush_bytes b) (log b);
                           L1 = (if written \<noteq> int (length (flush_bytes b))
                                 then LogFailure (stop L) else L)
                       in L1\<lparr>message_buffer := message_buffer (log b')\<rparr>)"
    using WriteToLogFile_buffer[OF assms] by blast
  have "is_stopped (log b') =
          (if snd (WriteToFile (flush_bytes b) (log b)) \<noteq> int (length (flush_bytes b))
           then True else is_stopped (log b))"
    by (subst b'(2)) (simp add: Let_def split_beta WriteToFile_fields LogFailure_def stop_def)
  moreover have "failures (log b') =
          (if snd (WriteToFile (flush_bytes b) (log b)) \<noteq> int (length (flush_bytes b))
           then Suc (failures (log b)) else failures (log b))"
    by (subst b'(2)) (simp add: Let_def split_beta WriteToFile_fields LogFailure_def stop_def)
  ultimately show ?thesis using b'(1) by (auto simp: IsEnabled_def)
qed


theorem flush_failure_escalation_witness:
  "valid example_builder
   \<and> (\<exists>b'. WriteToLogFile example_builder = Some b'
          \<and> \<not> is_stopped (log b') \<and> failures (log b') = 0)
   \<and> valid example_full_disk
   \<and> (\<exists>b'. WriteToLogFile example_full_disk = Some b'
          \<and> is_stopped (log b') \<and> \<not> IsEnabled (log b') \<and> failures (log b') = 1)"
proof -
  have v: "valid example_builder" "valid example_full_disk"
    by (simp_all add: valid_def example_defs example_full_disk_def kMessageBufferSize_def)
  show ?thesis
    using v flush_failure_escalation[OF v(1)] flush_failure_escalation[OF v(2)]
    by (simp add: example_defs example_full_disk_def flush_bytes_def buf_of_def
          kMessageBufferSize_def WriteToFile_def IsEnabled_def)
qed

text \<open>
  C6. For a string without NUL byte whose output fits in the remaining capacity,
  \<open>AppendDoubleQuotedString\<close> appends a double quote, the string with a backslash before
  each double quote, and a double quote; removing the wrapping quotes from the appended
  bytes and replacing each backslash-quote pair by a quote gives the string back.
\<close>

theorem quoted_string_roundtrip:
  assumes "valid b" and "NUL \<notin> set s"
    and "pos b + int (length (quote_escape s)) + 2 \<le> kMessageBufferSize"
  shows "\<exists>b'. AppendDoubleQuotedString s b = Some b'
           \<and> pos b' = pos b + int (length (quote_escape s)) + 2
           \<and> content b' = content b @ dquote # quote_escape s @ [dquote]
           \<and> quote_unescape (strip_quotes (drop (nat (pos b)) (content b'))) = s"
proof -
  let ?out = "dquote # quote_escape s @ [dquote]"
  have l: "int (length (content b)) = pos b" using assms(1) by (rule holds_valid_len)
  obtain b' where b': "AppendDoubleQuotedString s b = Some b'" "exact b' (content b @ ?out)"
    using AppendDoubleQuotedString_exact[OF exact_content[OF assms(1)], of s] c_str_id[OF assms(2)]
    by auto
  have fit: "int (length (content b @ ?out)) \<le> kMessageBufferSize"
    using l assms(3) by simp
  then have c: "content b' = content b @ ?out"
    using b'(2) unfolding exact_def by simp
  have p: "pos b' = pos b + int (length (quote_escape s)) + 2"
    using b'(2) fit l unfolding exact_def by simp
  have "drop (nat (pos b)) (content b') = ?out"
    using c l by simp
  then have "quote_unescape (strip_quotes (drop (nat (pos b)) (content b'))) = s"
    by (simp add: strip_quotes_def quote_roundtrip butlast_append)
  then show ?thesis using b'(1) c p by blast
qed

theorem quoted_string_roundtrip_witness:
  "valid example_builder
   \<and> NUL \<notin> set [CHR ''a'', dquote, backslash, dquote, CHR ''b'']
   \<and> (\<exists>b'. AppendDoubleQuotedString [CHR ''a'', dquote, backslash, dquote, CHR ''b''] example_builder
             = Some b'
          \<and> pos b' = 9
          \<and> content b' = [dquote, CHR ''a'', backslash, dquote, backslash, backslash, dquote,
                           CHR ''b'', dquote]
          \<and> quote_unescape (strip_quotes (content b'))
               = [CHR ''a'', dquote, backslash, dquote, CHR ''b''])"
  using quoted_string_roundtrip[OF example_valid, of "[CHR ''a'', dquote, backslash, dquote, CHR ''b'']"]
  by (simp add: example_valid example_content kMessageBufferSize_def)



text \<open>
  C9. With implementation info, the marker that \<open>AppendDetailed\<close> appends carries the full
  length of the string (\<open>impl_marker\<close> renders \<open>length (chars s)\<close>), while the tokens that
  follow are those of the first 4096 code units only. Whenever the marker fits below the
  capacity, it is found in the buffer at the place of the cursor.
\<close>

theorem impl_info_full_length:
  assumes "valid b"
  shows "\<exists>b'. AppendDetailed (Some s) True b = Some b'
           \<and> holds b' (content b @ impl_marker s @
                         concat (map detailed_token (take 4096 (chars s))))
           \<and> (pos b + int (length (impl_marker s)) < kMessageBufferSize
                \<longrightarrow> take (length (impl_marker s)) (drop (nat (pos b)) (buf_of b')) = impl_marker s)"
proof -
  let ?out = "concat (map detailed_token (take 4096 (chars s)))"
  have l: "int (length (content b)) = pos b" using assms by (rule holds_valid_len)
  obtain b' where b': "AppendDetailed (Some s) True b = Some b'"
      "holds b' (content b @ impl_marker s @ ?out)"
    using AppendDetailed_holds[OF holds_content[OF assms], of s True] by auto
  have "take (length (impl_marker s)) (drop (nat (pos b)) (buf_of b')) = impl_marker s"
    if fit: "pos b + int (length (impl_marker s)) < kMessageBufferSize"
  proof -
    have "holds b' ((content b @ impl_marker s) @ ?out)" using b'(2) by simp
    moreover have "int (length (content b @ impl_marker s)) < kMessageBufferSize"
      using fit l by simp
    ultimately have "take (length (content b @ impl_marker s)) (buf_of b') = content b @ impl_marker s"
      by (rule holds_prefix)
    then have "drop (nat (pos b)) (take (length (content b @ impl_marker s)) (buf_of b'))
                 = drop (nat (pos b)) (content b @ impl_marker s)" by simp
    moreover have "length (content b) = nat (pos b)" using l by simp
    ultimately show ?thesis by (simp add: drop_take)
  qed
  then show ?thesis using b' by blast
qed

theorem impl_info_full_length_witness:
  "valid example_builder
   \<and> length (chars example_long_string) = 5000
   \<and> (\<exists>b'. AppendDetailed (Some example_long_string) True example_builder = Some b'
          \<and> take (length ''a:5000:'') (buf_of b') = ''a:5000:'')"
  using impl_info_full_length[OF example_valid, of example_long_string]
  by (auto simp: example_valid example_content example_long_string_def kMessageBufferSize_def
        impl_marker_def render_d_def dec_digits.simps)

text \<open>
  C1, as the code has it. When the log is opened at start-up, \<open>Initialize\<close> makes exactly one
  request to the channel: the version record, cut to its first \<open>kMessageBufferSize - 1\<close>
  bytes, and one line terminator. The request is the whole record and the terminator
  whenever the record is shorter than \<open>kMessageBufferSize\<close>, which is always so when the
  embedder string is empty and the version numbers are 32-bit integers. The layout of the
  record is \<open>version_record\<close>: the embedder field is present iff the embedder string is not
  empty.
\<close>

theorem version_record_emitted:
  assumes "InitLogAtStart (resolve_flags F)"
    and "output_handle (open_log os log_file_name L) = Some h"
  shows "\<exists>L'. Initialize os InitLogAtStart v log_file_name F L = Some (resolve_flags F, L')
           \<and> output_handle L' = Some h
           \<and> requests L' = requests L @
                [take (nat kMessageBufferSize - 1) (version_record v) @ [newline]]
           \<and> (int (length (version_record v)) < kMessageBufferSize
                \<longrightarrow> requests L' = requests L @ [version_record v @ [newline]])
           \<and> (strlen (GetEmbedder v) = 0
                \<and> (\<forall>n \<in> {GetMajor v, GetMinor v, GetBuild v, GetPatch v}.
                      - (2 ^ 31) \<le> n \<and> n < 2 ^ 31)
                \<longrightarrow> requests L' = requests L @ [version_record v @ [newline]])"
proof -
  obtain L' where L': "Initialize os InitLogAtStart v log_file_name F L = Some (resolve_flags F, L')"
      "output_handle L' = Some h"
      "requests L' = requests L @
                [take (nat kMessageBufferSize - 1) (version_record v) @ [newline]]"
    using Initialize_requests[where InitLogAtStart = InitLogAtStart and F = F, OF assms] by blast
  have *: "requests L' = requests L @ [version_record v @ [newline]]"
    if "int (length (version_record v)) < kMessageBufferSize"
    using that L'(3) by simp
  then have "requests L' = requests L @ [version_record v @ [newline]]"
    if "strlen (GetEmbedder v) = 0
          \<and> (\<forall>n \<in> {GetMajor v, GetMinor v, GetBuild v, GetPatch v}. - (2 ^ 31) \<le> n \<and> n < 2 ^ 31)"
    using that version_record_short[of v] by blast
  then show ?thesis using L' * by blast
qed

theorem version_record_emitted_witness:
  "FLAG_log_code (resolve_flags example_flags)
   \<and> output_handle (open_log example_platform ''v8.log'' (Log_ctor 100)) = Some (Handle 2)
   \<and> (\<exists>L'. Initialize example_platform FLAG_log_code example_version ''v8.log'' example_flags
               (Log_ctor 100) = Some (resolve_flags example_flags, L')
          \<and> requests L' = [''v8-version,7,2,1,0,0'' @ [newline]])
   \<and> (\<exists>L'. Initialize example_platform FLAG_log_code example_version_acme ''v8.log''
               example_flags (Log_ctor 100) = Some (resolve_flags example_flags, L')
          \<and> requests L' = [''v8-version,7,2,1,0,acme,0'' @ [newline]])"
  using version_record_emitted[of FLAG_log_code example_flags example_platform "''v8.log''"
          "Log_ctor 100" "Handle 2" example_version, OF example_start]
        version_record_emitted[of FLAG_log_code example_flags example_platform "''v8.log''"
          "Log_ctor 100" "Handle 2" example_version_acme, OF example_start]
  by (auto simp: example_start version_record_def example_version_def example_version_acme_def
        render_d_def dec_digits.simps c_str_def kMessageBufferSize_def requests_Log_ctor)

text \<open>
  C1 as stated fails for an embedder string too long for the buffer: with 2048 characters
  of embedder, the request is the first 2047 bytes of the record and the terminator, not
  the record with its embedder and candidate fields in full.
\<close>

theorem version_record_truncated:
  "map_option (requests \<circ> snd)
     (Initialize example_platform FLAG_log_code example_version_long ''v8.log'' example_flags
        (Log_ctor 4096))
     = Some [''v8-version,7,2,1,0,'' @ replicate 2028 (CHR ''e'') @ [newline]]
   \<and> map_option (requests \<circ> snd)
     (Initialize example_platform FLAG_log_code example_version_long ''v8.log'' example_flags
        (Log_ctor 4096))
     \<noteq> Some [''v8-version,7,2,1,0,'' @ replicate 2048 (CHR ''e'') @ '',0'' @ [newline]]"
proof -
  obtain L' where L': "Initialize example_platform FLAG_log_code example_version_long ''v8.log''
        example_flags (Log_ctor 4096) = Some (resolve_flags example_flags, L')"
      "requests L' = requests (Log_ctor 4096) @
         [take (nat kMessageBufferSize - 1) (version_record example_version_long) @ [newline]]"
    using Initialize_requests[of FLAG_log_code example_flags example_platform "''v8.log''"
          "Log_ctor 4096" "Handle 2" example_version_long, OF example_start] by blast
  have r: "requests L' = [''v8-version,7,2,1,0,'' @ replicate 2028 (CHR ''e'') @ [newline]]"
    using L'(2) version_record_long by (simp add: requests_Log_ctor kMessageBufferSize_def)
  have "length (''v8-version,7,2,1,0,'' @ replicate 2028 (CHR ''e'') @ [newline])
          \<noteq> length (''v8-version,7,2,1,0,'' @ replicate 2048 (CHR ''e'') @ '',0'' @ [newline])"
    by simp
  then have "''v8-version,7,2,1,0,'' @ replicate 2028 (CHR ''e'') @ [newline]
      \<noteq> ''v8-version,7,2,1,0,'' @ replicate 2048 (CHR ''e'') @ '',0'' @ [newline]"
    by metis
  then show ?thesis using L'(1) r by simp
qed

text \<open>
  C7, as the code has it. \<open>Close\<close> with an open handle returns the handle, without closing
  it, when \<open>FLAG_logfile\<close> names the temporary file, and otherwise closes the handle and
  returns null; this is so whether or not the log was stopped. In every case the handle
  and the buffer are null afterwards, so the channel is disabled and a write does nothing.
  With no handle open, \<open>Close\<close> returns null and closes nothing, while it still releases
  the buffer and clears the stop flag. It changes nothing at all exactly on a log with no
  handle, no buffer and no stop flag, which is the state a \<open>Close\<close> leaves: a second
  \<open>Close\<close> is a no-op.
\<close>

theorem close_channel:
  "(case output_handle L of
      None \<Rightarrow> Close FLAG_logfile L = (None, L\<lparr>message_buffer := None, is_stopped := False\<rparr>)
    | Some h \<Rightarrow>
        if strcmp_eq FLAG_logfile kLogToTemporaryFile
        then fst (Close FLAG_logfile L) = Some h \<and> closed (snd (Close FLAG_logfile L)) = closed L
        else fst (Close FLAG_logfile L) = None
             \<and> closed (snd (Close FLAG_logfile L)) = closed L @ [h])
   \<and> output_handle (snd (Close FLAG_logfile L)) = None
   \<and> message_buffer (snd (Close FLAG_logfile L)) = None
   \<and> \<not> IsEnabled (snd (Close FLAG_logfile L))
   \<and> snd (WriteToFile msg (snd (Close FLAG_logfile L))) = 0
   \<and> device (fst (WriteToFile msg (snd (Close FLAG_logfile L)))) = device L
   \<and> Close FLAG_logfile (snd (Close FLAG_logfile L)) = (None, snd (Close FLAG_logfile L))
   \<and> (Close FLAG_logfile L = (None, L)
        \<longleftrightarrow> output_handle L = None \<and> message_buffer L = None \<and> \<not> is_stopped L)"
proof -
  have "L\<lparr>output_handle := None, message_buffer := None, is_stopped := False\<rparr> = L
          \<longleftrightarrow> output_handle L = None \<and> message_buffer L = None \<and> \<not> is_stopped L"
    by (cases L) auto
  then have "Close FLAG_logfile L = (None, L)
        \<longleftrightarrow> output_handle L = None \<and> message_buffer L = None \<and> \<not> is_stopped L"
    by (cases L) (auto simp: Close_def Let_def split: option.splits if_splits)
  then show ?thesis
    by (simp add: Close_def IsEnabled_def WriteToFile_def Let_def split: option.splits)
qed

theorem close_channel_witness:
  "Close ''&'' example_temp_log
     = (Some (Handle 1),
        example_temp_log\<lparr>output_handle := None, message_buffer := None\<rparr>)
   \<and> Close ''v8.log'' example_temp_log
     = (None, example_temp_log\<lparr>output_handle := None, message_buffer := None,
                               closed := [Handle 1]\<rparr>)
   \<and> output_handle (Log_ctor 100) = None \<and> message_buffer (Log_ctor 100) = None
   \<and> \<not> is_stopped (Log_ctor 100)
   \<and> Close ''&'' (Log_ctor 100) = (None, Log_ctor 100)"
  using close_channel[where L = example_temp_log and FLAG_logfile = "''&''"]
    close_channel[where L = example_temp_log and FLAG_logfile = "''v8.log''"]
    close_channel[where L = "Log_ctor 100" and FLAG_logfile = "''&''"]
  by (simp add: Close_def example_temp_log_def example_log_def Log_ctor_def strcmp_eq_def c_str_def
        kLogToTemporaryFile_def)

text \<open>
  C7 as stated fails in its last clause. A log stopped by a write failure is disabled, yet
  \<open>Close\<close> returns its temporary-file handle (and would close the handle of a named file).
  A log whose destination could not be opened is disabled, yet \<open>Close\<close> changes it: the
  buffer is released.
\<close>

theorem close_disabled_not_noop:
  "\<not> IsEnabled example_stopped_log
   \<and> fst (Close ''&'' example_stopped_log) = Some (Handle 1)
   \<and> Close ''&'' example_stopped_log \<noteq> (None, example_stopped_log)
   \<and> closed (snd (Close ''v8.log'' example_stopped_log)) = [Handle 1]
   \<and> \<not> IsEnabled example_unopened_log
   \<and> message_buffer example_unopened_log \<noteq> None
   \<and> message_buffer (snd (Close ''&'' example_unopened_log)) = None
   \<and> Close ''&'' example_unopened_log \<noteq> (None, example_unopened_log)"
  by (simp add: Close_def IsEnabled_def example_stopped_log_def example_unopened_log_def
        example_temp_log_def example_log_def Log_ctor_def strcmp_eq_def c_str_def
        kLogToTemporaryFile_def)

end
